theory Spec2Isabelle
  imports Complex_Main
begin

text \<open>
  A model of the sea surface temperature downloader of the hydrological toolbox
  (\<open>data/download_sea_surface_temperature.py\<close>): the class \<open>SeaSurfaceTempDownloader\<close> with
  its constructors and methods, and the function \<open>download_sst\<close>. Python values are datatypes,
  a raised exception is the left summand of a sum type, and the network, the temporary
  directory and the files in it are an environment and a map from paths to decoded files.
\<close>

section \<open>Calendar\<close>

text \<open>
  Python's \<open>date\<close> and the \<open>Timestamp\<close> of pandas count days in the proleptic Gregorian
  calendar. A date is modelled by its ordinal, the value of \<open>date.toordinal()\<close>: day 1 is
  0001-01-01. The year, month and day of an ordinal are found by search from the days before
  a year and the days in a month.
\<close>

type_synonym date = nat

definition is_leap :: "nat \<Rightarrow> bool" where
  "is_leap y \<longleftrightarrow> y mod 4 = 0 \<and> (y mod 100 \<noteq> 0 \<or> y mod 400 = 0)"

definition days_before_year :: "nat \<Rightarrow> nat" where
  "days_before_year y = (let p = y - 1 in p * 365 + p div 4 - p div 100 + p div 400)"

definition days_in_year :: "nat \<Rightarrow> nat" where
  "days_in_year y = (if is_leap y then 366 else 365)"

definition days_in_month :: "nat \<Rightarrow> nat \<Rightarrow> nat" where
  "days_in_month y m =
     (if m = 2 then (if is_leap y then 29 else 28)
      else if m = 4 \<or> m = 6 \<or> m = 9 \<or> m = 11 then 30 else 31)"

lemma year_step_arith:
  fixes a b c a' b' c' p :: nat
  assumes "b \<le> a" "a' = a + x" "b' = b + y" "c' = c + z" "y \<le> x"
  shows "Suc p * 365 + a' - b' + c' = (p * 365 + a - b + c) + (365 + x + z - y)"
  using assms by simp

lemma dvd_mod_zero:
  fixes q :: nat
  assumes "k dvd m" "q mod m = 0"
  shows "q mod k = 0"
proof -
  have "m dvd q" using assms(2) by (simp add: dvd_eq_mod_eq_0)
  with assms(1) have "k dvd q" by (rule dvd_trans)
  then show ?thesis by (simp add: dvd_eq_mod_eq_0)
qed

lemma days_before_year_Suc:
  "days_before_year (Suc (Suc p)) = days_before_year (Suc p) + days_in_year (Suc p)"
proof -
  define q where "q = Suc p"
  define x :: nat where "x = (if q mod 4 = 0 then 1 else 0)"
  define y :: nat where "y = (if q mod 100 = 0 then 1 else 0)"
  define z :: nat where "z = (if q mod 400 = 0 then 1 else 0)"
  have d4: "q div 4 = p div 4 + x"
    unfolding q_def x_def by (simp add: div_Suc)
  have d100: "q div 100 = p div 100 + y"
    unfolding q_def y_def by (simp add: div_Suc)
  have d400: "q div 400 = p div 400 + z"
    unfolding q_def z_def by (simp add: div_Suc)
  have le: "p div 100 \<le> p div 4"
    by (rule div_le_mono2) simp_all
  have m1: "q mod 100 = 0" if "q mod 400 = 0"
    by (rule dvd_mod_zero [OF _ that]) simp
  have m2: "q mod 4 = 0" if "q mod 100 = 0"
    by (rule dvd_mod_zero [OF _ that]) simp
  have yx: "y \<le> x"
    unfolding x_def y_def using m2 by (cases "q mod 100 = 0") simp_all
  have diy: "days_in_year q = 365 + x + z - y"
  proof (cases "q mod 400 = 0")
    case True
    then show ?thesis
      unfolding days_in_year_def is_leap_def x_def y_def z_def
      using m1 [OF True] m2 [OF m1 [OF True]] by (simp only: ) simp
  next
    case False
    then show ?thesis
      unfolding days_in_year_def is_leap_def x_def y_def z_def
      using m2 by (cases "q mod 100 = 0"; cases "q mod 4 = 0") (simp_all only: , simp_all)
  qed
  have "days_before_year (Suc q) = Suc p * 365 + q div 4 - q div 100 + q div 400"
    by (simp add: days_before_year_def q_def)
  also have "\<dots> = (p * 365 + p div 4 - p div 100 + p div 400) + (365 + x + z - y)"
    by (rule year_step_arith [OF le d4 d100 d400 yx])
  also have "p * 365 + p div 4 - p div 100 + p div 400 = days_before_year q"
    by (simp add: days_before_year_def q_def)
  finally have "days_before_year (Suc q) = days_before_year q + days_in_year q"
    by (simp only: diy)
  then show ?thesis
    by (simp only: q_def)
qed

lemma days_before_year_less_Suc: "days_before_year (Suc y) < days_before_year (Suc (Suc y))"
  by (simp add: days_before_year_Suc days_in_year_def)

function year_from :: "nat \<Rightarrow> nat \<Rightarrow> nat" where
  "year_from n y = (if days_before_year (Suc y) < n then year_from n (Suc y) else y)"
  by pat_completeness auto
termination
proof (relation "measure (\<lambda>(n, y). n - days_before_year (Suc y))")
  show "wf (measure (\<lambda>(n, y). n - days_before_year (Suc y)))" by simp
next
  fix n y assume "days_before_year (Suc y) < n"
  with days_before_year_less_Suc [of y]
  show "((n, Suc y), (n, y)) \<in> measure (\<lambda>(n, y). n - days_before_year (Suc y))"
    by simp
qed

declare year_from.simps [simp del]

definition year_of :: "date \<Rightarrow> nat" where
  "year_of n = year_from n (Suc (n div 366))"

function month_from :: "nat \<Rightarrow> nat \<Rightarrow> nat \<Rightarrow> nat \<times> nat" where
  "month_from y m k =
     (if m < 12 \<and> days_in_month y m < k then month_from y (Suc m) (k - days_in_month y m)
      else (m, k))"
  by pat_completeness auto
termination
  by (relation "measure (\<lambda>(y, m, k). 12 - m)") auto

declare month_from.simps [simp del]

definition ord2ymd :: "date \<Rightarrow> nat \<times> nat \<times> nat" where
  "ord2ymd n = (let y = year_of n in (y, month_from y 1 (n - days_before_year y)))"

function days_before_month :: "nat \<Rightarrow> nat \<Rightarrow> nat" where
  "days_before_month y m =
     (if m \<le> 1 then 0 else days_before_month y (m - 1) + days_in_month y (m - 1))"
  by pat_completeness auto
termination
  by (relation "measure (\<lambda>(y, m). m)") auto

declare days_before_month.simps [simp del]

definition ymd2ord :: "nat \<Rightarrow> nat \<Rightarrow> nat \<Rightarrow> date" where
  "ymd2ord y m d = days_before_year y + days_before_month y m + d"

lemma days_before_year_mono_Suc: "a \<le> b \<Longrightarrow> days_before_year (Suc a) \<le> days_before_year (Suc b)"
proof (induction b)
  case 0
  then show ?case by simp
next
  case (Suc b)
  show ?case
  proof (cases "a = Suc b")
    case True
    then show ?thesis by simp
  next
    case False
    with Suc have "days_before_year (Suc a) \<le> days_before_year (Suc b)" by simp
    with days_before_year_less_Suc [of b] show ?thesis by simp
  qed
qed

lemma year_from_bounds:
  "days_before_year y0 < n \<Longrightarrow> 0 < y0 \<Longrightarrow>
   days_before_year (year_from n y0) < n \<and> n \<le> days_before_year (Suc (year_from n y0))
   \<and> 0 < year_from n y0"
proof (induction n y0 rule: year_from.induct)
  case (1 n y)
  show ?case
  proof (cases "days_before_year (Suc y) < n")
    case True
    with "1.IH" have "days_before_year (year_from n (Suc y)) < n \<and>
        n \<le> days_before_year (Suc (year_from n (Suc y))) \<and> 0 < year_from n (Suc y)"
      by simp
    moreover have "year_from n y = year_from n (Suc y)"
      using True by (subst year_from.simps) simp
    ultimately show ?thesis by simp
  next
    case False
    then have "year_from n y = y" by (subst year_from.simps) simp
    with False "1.prems" show ?thesis by simp
  qed
qed

lemma days_before_year_lt_366: "days_before_year (Suc (Suc p)) < 366 * Suc p"
proof (induction p)
  case 0
  then show ?case by (simp add: days_before_year_def)
next
  case (Suc p)
  then show ?case by (simp add: days_before_year_Suc [of "Suc p"] days_in_year_def)
qed

lemma days_before_year_estimate: "0 < n \<Longrightarrow> days_before_year (Suc (n div 366)) < n"
proof (cases "n div 366")
  case 0
  assume "0 < n"
  with 0 show ?thesis by (simp add: days_before_year_def)
next
  case (Suc p)
  have "days_before_year (Suc (Suc p)) < 366 * Suc p"
    by (rule days_before_year_lt_366)
  also have "\<dots> = 366 * (n div 366)" using Suc by simp
  also have "\<dots> \<le> n" by simp
  finally show ?thesis using Suc by simp
qed

lemma year_of_bounds:
  assumes "0 < n"
  shows "days_before_year (year_of n) < n" and "n \<le> days_before_year (Suc (year_of n))"
    and "0 < year_of n"
  using year_from_bounds [OF days_before_year_estimate [OF assms], simplified]
  by (simp_all add: year_of_def)

lemma year_of_mono:
  assumes "0 < a" "a \<le> b"
  shows "year_of a \<le> year_of b"
proof (rule ccontr)
  assume "\<not> year_of a \<le> year_of b"
  then have "Suc (year_of b) \<le> year_of a" by simp
  moreover obtain k where k: "year_of a = Suc k" using year_of_bounds(3) [OF assms(1)]
    by (cases "year_of a") auto
  ultimately have "year_of b \<le> k" by simp
  then have "days_before_year (Suc (year_of b)) \<le> days_before_year (Suc k)"
    by (rule days_before_year_mono_Suc)
  moreover have "b \<le> days_before_year (Suc (year_of b))"
    using assms by (intro year_of_bounds(2)) simp
  moreover have "days_before_year (Suc k) < a"
    using year_of_bounds(1) [OF assms(1)] k by simp
  ultimately show False using assms(2) by simp
qed

lemma month_from_sum:
  "month_from y m k = (m', d) \<Longrightarrow> 0 < m \<Longrightarrow>
   days_before_month y m' + d = days_before_month y m + k \<and> m \<le> m'"
proof (induction y m k rule: month_from.induct)
  case (1 y m k)
  show ?case
  proof (cases "m < 12 \<and> days_in_month y m < k")
    case True
    then have "month_from y m k = month_from y (Suc m) (k - days_in_month y m)"
      by (subst month_from.simps) simp
    with "1.prems" have "month_from y (Suc m) (k - days_in_month y m) = (m', d)" by simp
    with "1.IH" True have "days_before_month y m' + d =
        days_before_month y (Suc m) + (k - days_in_month y m) \<and> Suc m \<le> m'"
      by simp
    moreover have "days_before_month y (Suc m) = days_before_month y m + days_in_month y m"
      using "1.prems"(2) by (subst days_before_month.simps) simp
    ultimately show ?thesis using True by simp
  next
    case False
    then have "month_from y m k = (m, k)" by (subst month_from.simps) auto
    with "1.prems" show ?thesis by simp
  qed
qed

lemma ord2ymd_inverse:
  assumes "0 < n" "ord2ymd n = (y, m, d)"
  shows "ymd2ord y m d = n"
proof -
  from assms(2) have y: "y = year_of n" and mf: "month_from y 1 (n - days_before_year y) = (m, d)"
    by (auto simp add: ord2ymd_def Let_def)
  have "days_before_month y 1 = 0" by (subst days_before_month.simps) simp
  with month_from_sum [OF mf] have "days_before_month y m + d = n - days_before_year y"
    by simp
  moreover have "days_before_year y < n" using year_of_bounds(1) [OF assms(1)] y by simp
  ultimately show ?thesis by (simp add: ymd2ord_def)
qed

lemma ord2ymd_inj:
  assumes "0 < a" "0 < b" "ord2ymd a = ord2ymd b"
  shows "a = b"
proof -
  obtain y m d where ymd: "ord2ymd a = (y, m, d)" by (cases "ord2ymd a") auto
  have "ymd2ord y m d = a" by (rule ord2ymd_inverse [OF assms(1) ymd])
  moreover have "ymd2ord y m d = b"
    by (rule ord2ymd_inverse [OF assms(2)]) (simp only: assms(3) [symmetric] ymd)
  ultimately show ?thesis by (rule trans [OF sym])
qed

lemma year_of_zero: "year_of 0 = 1"
  by (simp add: year_of_def year_from.simps)

lemma year_of_le: "days_before_year (year_of n) \<le> n"
proof (cases "n = 0")
  case True
  then show ?thesis by (simp add: year_of_zero days_before_year_def)
next
  case False
  then show ?thesis using year_of_bounds(1) [of n] by simp
qed

lemma year_of_pos: "0 < year_of n"
  using year_of_bounds(3) [of n] year_of_zero by (cases "n = 0") simp_all

lemma year_of_mono_all: "a \<le> b \<Longrightarrow> year_of a \<le> year_of b"
  using year_of_mono [of a b] year_of_pos [of b] year_of_zero by (cases "a = 0") simp_all

lemma ord2ymd_inverse_all:
  assumes "ord2ymd n = (y, m, d)"
  shows "ymd2ord y m d = n"
proof -
  from assms have y: "y = year_of n" and mf: "month_from y 1 (n - days_before_year y) = (m, d)"
    by (auto simp add: ord2ymd_def Let_def)
  have "days_before_month y 1 = 0" by (subst days_before_month.simps) simp
  with month_from_sum [OF mf] have "days_before_month y m + d = n - days_before_year y"
    by simp
  moreover have "days_before_year y \<le> n" unfolding y by (rule year_of_le)
  ultimately show ?thesis by (simp add: ymd2ord_def)
qed

lemma ord2ymd_inj_all:
  assumes "ord2ymd a = ord2ymd b"
  shows "a = b"
proof -
  obtain y m d where ymd: "ord2ymd a = (y, m, d)" by (cases "ord2ymd a") auto
  have "ymd2ord y m d = a" by (rule ord2ymd_inverse_all [OF ymd])
  moreover have "ymd2ord y m d = b"
    by (rule ord2ymd_inverse_all) (simp only: assms [symmetric] ymd)
  ultimately show ?thesis by (rule trans [OF sym])
qed

section \<open>Strings\<close>

text \<open>
  \<open>str_nat\<close> is Python's \<open>str\<close> (and the \<open>f'{year}'\<close> of an f-string) on a natural number,
  \<open>zfill\<close> pads with zeros on the left, \<open>isoformat\<close> is \<open>str\<close> of a \<open>date\<close>
  (\<open>YYYY-MM-DD\<close>), and \<open>str_timestamp\<close> is \<open>str\<close> of a \<open>Timestamp\<close>
  (\<open>YYYY-MM-DD HH:MM:SS\<close>). A time stamp is a date and the seconds since midnight.
\<close>

definition digit_char :: "nat \<Rightarrow> char" where
  "digit_char d = ''0123456789'' ! d"

definition digit_val :: "char \<Rightarrow> nat" where
  "digit_val c = length (takeWhile (\<lambda>x. x \<noteq> c) ''0123456789'')"

function str_nat :: "nat \<Rightarrow> string" where
  "str_nat n = (if n < 10 then [digit_char n] else str_nat (n div 10) @ [digit_char (n mod 10)])"
  by pat_completeness auto
termination
  by (relation "measure id") auto

declare str_nat.simps [simp del]

definition int_of_str :: "string \<Rightarrow> nat" where
  "int_of_str s = foldl (\<lambda>a c. 10 * a + digit_val c) 0 s"

definition zfill :: "nat \<Rightarrow> string \<Rightarrow> string" where
  "zfill w s = replicate (w - length s) CHR ''0'' @ s"

definition isoformat :: "date \<Rightarrow> string" where
  "isoformat n = (case ord2ymd n of (y, m, d) \<Rightarrow>
     zfill 4 (str_nat y) @ ''-'' @ zfill 2 (str_nat m) @ ''-'' @ zfill 2 (str_nat d))"

record timestamp =
  ts_date :: date
  ts_secs :: nat

definition str_timestamp :: "timestamp \<Rightarrow> string" where
  "str_timestamp ts = isoformat (ts_date ts) @ '' '' @
     zfill 2 (str_nat (ts_secs ts div 3600)) @ '':'' @
     zfill 2 (str_nat (ts_secs ts div 60 mod 60)) @ '':'' @
     zfill 2 (str_nat (ts_secs ts mod 60))"

lemma digit_cases: "d < 10 \<Longrightarrow> d \<in> {0, 1, 2, 3, 4, 5, 6, 7, 8, 9::nat}"
  by auto

lemma digit_val_digit_char: "d < 10 \<Longrightarrow> digit_val (digit_char d) = d"
  using digit_cases [of d] by (auto simp add: digit_val_def digit_char_def)

lemma digit_char_in: "d < 10 \<Longrightarrow> digit_char d \<in> set ''0123456789''"
  using digit_cases [of d] by (auto simp add: digit_char_def)

lemma int_of_str_snoc: "int_of_str (s @ [c]) = 10 * int_of_str s + digit_val c"
  by (simp add: int_of_str_def)

lemma int_of_str_str_nat: "int_of_str (str_nat n) = n"
proof (induction n rule: str_nat.induct)
  case (1 n)
  show ?case
  proof (cases "n < 10")
    case True
    then have "str_nat n = [digit_char n]" by (subst str_nat.simps) simp
    with True show ?thesis by (simp add: int_of_str_def digit_val_digit_char)
  next
    case False
    then have "str_nat n = str_nat (n div 10) @ [digit_char (n mod 10)]"
      by (subst str_nat.simps) simp
    with False "1.IH" show ?thesis
      by (simp add: int_of_str_snoc digit_val_digit_char)
  qed
qed

lemma str_nat_digits: "set (str_nat n) \<subseteq> set ''0123456789''"
proof (induction n rule: str_nat.induct)
  case (1 n)
  show ?case
  proof (cases "n < 10")
    case True
    then have "str_nat n = [digit_char n]" by (subst str_nat.simps) simp
    with digit_char_in [OF True] show ?thesis by simp
  next
    case False
    then have eq: "str_nat n = str_nat (n div 10) @ [digit_char (n mod 10)]"
      by (subst str_nat.simps) simp
    have "digit_char (n mod 10) \<in> set ''0123456789''" by (rule digit_char_in) simp
    with False "1.IH" show ?thesis unfolding eq by simp
  qed
qed

lemma str_nat_inj: "str_nat a = str_nat b \<Longrightarrow> a = b"
  by (metis int_of_str_str_nat)

lemma foldl_zeros: "foldl (\<lambda>a c. 10 * a + digit_val c) 0 (replicate k CHR ''0'') = 0"
  by (induction k) (simp_all add: digit_val_def)

lemma int_of_str_zfill: "int_of_str (zfill w (str_nat n)) = n"
  using int_of_str_str_nat [of n] by (simp add: zfill_def int_of_str_def foldl_zeros)

lemma zfill_digits: "set (zfill w (str_nat n)) \<subseteq> set ''0123456789''"
  using str_nat_digits [of n] by (auto simp add: zfill_def)

lemma zfill_no_dash: "CHR ''-'' \<notin> set (zfill w (str_nat n))"
  using zfill_digits [of w n] by auto

lemma zfill_no_space: "CHR '' '' \<notin> set (zfill w (str_nat n))"
  using zfill_digits [of w n] by auto

lemma takeWhile_until_sep: "c \<notin> set a \<Longrightarrow> takeWhile (\<lambda>x. x \<noteq> c) (a @ c # r) = a"
  by (induction a) auto

lemma split_at_sep:
  assumes "c \<notin> set a" "c \<notin> set b" "a @ c # r = b @ c # r'"
  shows "a = b \<and> r = r'"
proof -
  have "takeWhile (\<lambda>x. x \<noteq> c) (a @ c # r) = a" using assms(1) by (rule takeWhile_until_sep)
  moreover have "takeWhile (\<lambda>x. x \<noteq> c) (b @ c # r') = b" using assms(2) by (rule takeWhile_until_sep)
  ultimately have "a = b" using assms(3) by simp
  with assms(3) show ?thesis by simp
qed

lemma isoformat_inj:
  assumes "isoformat a = isoformat b"
  shows "a = b"
proof -
  obtain y m d where A: "ord2ymd a = (y, m, d)" by (cases "ord2ymd a") auto
  obtain y' m' d' where B: "ord2ymd b = (y', m', d')" by (cases "ord2ymd b") auto
  from assms A B have eq: "zfill 4 (str_nat y) @ CHR ''-'' # (zfill 2 (str_nat m) @ CHR ''-'' # zfill 2 (str_nat d))
      = zfill 4 (str_nat y') @ CHR ''-'' # (zfill 2 (str_nat m') @ CHR ''-'' # zfill 2 (str_nat d'))"
    by (simp add: isoformat_def)
  from split_at_sep [OF zfill_no_dash zfill_no_dash eq]
  have Y: "zfill 4 (str_nat y) = zfill 4 (str_nat y')"
    and R: "zfill 2 (str_nat m) @ CHR ''-'' # zfill 2 (str_nat d)
      = zfill 2 (str_nat m') @ CHR ''-'' # zfill 2 (str_nat d')" by simp_all
  from split_at_sep [OF zfill_no_dash zfill_no_dash R]
  have M: "zfill 2 (str_nat m) = zfill 2 (str_nat m')"
    and D: "zfill 2 (str_nat d) = zfill 2 (str_nat d')" by simp_all
  have "y = y'" using Y by (metis int_of_str_zfill)
  moreover have "m = m'" using M by (metis int_of_str_zfill)
  moreover have "d = d'" using D by (metis int_of_str_zfill)
  ultimately have "ord2ymd a = ord2ymd b" using A B by simp
  then show ?thesis by (rule ord2ymd_inj_all)
qed

lemma isoformat_no_space: "CHR '' '' \<notin> set (isoformat n)"
proof -
  obtain y m d where A: "ord2ymd n = (y, m, d)" by (cases "ord2ymd n") auto
  show ?thesis using zfill_no_space by (simp add: isoformat_def A)
qed

lemma strip_time_of_day:
  "takeWhile (\<lambda>c. c \<noteq> CHR '' '') (str_timestamp ts) = isoformat (ts_date ts)"
  using isoformat_no_space [of "ts_date ts"]
  by (simp add: str_timestamp_def takeWhile_until_sep)

section \<open>Values, errors and the decoded grid file\<close>

text \<open>
  The exceptions the code can raise, by the name of their Python class. \<open>KeyError\<close> carries
  the missing key and \<open>TypeError\<close> its message.
\<close>

datatype error =
  TypeError string | KeyError string | IndexError | ValueError | OverflowError
  | URLError | FileNotFoundError | OSError

datatype warning = AllNullWarning

text \<open>
  A floating-point measurement is a real number, an infinity or not-a-number; \<open>NaN\<close> is the
  missing marker \<open>np.nan\<close>. Comparisons of a float with a number are exact, and every
  comparison with \<open>NaN\<close> is false. Coordinates are real numbers.
\<close>

datatype sstval = Num real | PosInf | NegInf | NaN

fun isnull :: "sstval \<Rightarrow> bool" where
  "isnull NaN = True"
| "isnull _ = False"

fun lt_real :: "sstval \<Rightarrow> real \<Rightarrow> bool" where
  "lt_real (Num x) t = (x < t)"
| "lt_real NegInf t = True"
| "lt_real PosInf t = False"
| "lt_real NaN t = False"

fun le_real :: "sstval \<Rightarrow> real \<Rightarrow> bool" where
  "le_real (Num x) t = (x \<le> t)"
| "le_real NegInf t = True"
| "le_real PosInf t = False"
| "le_real NaN t = False"

text \<open>
  What \<open>Dataset(...)\<close> decodes from a grid file: the latitudes, the longitudes, the time axis
  (integer day offsets from 1800-01-01, on which \<open>int(t)\<close> is the identity) and the
  measurements, indexed by time, latitude and longitude positions.
\<close>

record dataset =
  lat :: "real list"
  lon :: "real list"
  time :: "int list"
  sst :: "nat \<Rightarrow> nat \<Rightarrow> nat \<Rightarrow> sstval"

record row =
  DATE :: timestamp
  LAT :: real
  LON :: real
  SST :: sstval

text \<open>The values a caller can pass as \<open>locations\<close>; a table has column names and rows of cells.\<close>

datatype pyobj =
  PyNone | PyBool bool | PyInt int | PyFloat real | PyStr string
  | PyList "pyobj list" | PyTuple "pyobj list"
  | PyDataFrame "string list" "pyobj list list"

text \<open>
  The environment of a run: the directory \<open>tempfile.mkdtemp()\<close> makes (if it can), what
  \<open>urlretrieve\<close> and \<open>Dataset\<close> deliver for a URL (if the retrieval succeeds), the two
  library conversions whose results on irregular input are not fixed here, and the
  nearest-neighbour query of the library: \<open>kdtree_query data x\<close> is the position that
  \<open>KDTree(data).query(x)\<close> returns for one point \<open>x\<close>.
\<close>

record env =
  mkdtemp :: "string option"
  remote :: "string \<rightharpoonup> dataset"
  irregular_frame :: "pyobj list \<Rightarrow> error + nat \<times> pyobj list list"
  to_float64 :: "pyobj \<Rightarrow> error + real"
  kdtree_query :: "(real \<times> real) list \<Rightarrow> real \<times> real \<Rightarrow> nat"

text \<open>The fields of a \<open>SeaSurfaceTempDownloader\<close>; the dates are calendar dates.\<close>

record downloader =
  sst_data_parent_dir :: string
  temp_dir :: string
  locations :: "pyobj list list"
  start_date :: date
  end_date :: date


section \<open>Construction\<close>

text \<open>\<open>locations[[lat_col, lon_col]]\<close>: the cells of one row under the wanted column names.\<close>

definition select_columns :: "string list \<Rightarrow> string list \<Rightarrow> pyobj list \<Rightarrow> pyobj list" where
  "select_columns cols wanted r =
     concat (map (\<lambda>w. map snd (filter (\<lambda>cv. fst cv = w) (zip cols r))) wanted)"

definition init ::
  "env \<Rightarrow> string list \<Rightarrow> pyobj list list \<Rightarrow> date \<Rightarrow> date \<Rightarrow> string \<Rightarrow> string
     \<Rightarrow> error + downloader" where
  "init e cols rows sd ed lat_col lon_col =
     (case mkdtemp e of
        None \<Rightarrow> Inl OSError
      | Some dir \<Rightarrow>
          if lat_col \<notin> set cols then Inl (KeyError lat_col)
          else if lon_col \<notin> set cols then Inl (KeyError lon_col)
          else Inr \<lparr>sst_data_parent_dir = ''ftp://ftp.cdc.noaa.gov/Datasets/noaa.oisst.v2.highres/'',
                    temp_dir = dir,
                    locations = map (select_columns cols [lat_col, lon_col]) rows,
                    start_date = sd,
                    end_date = ed\<rparr>)"

fun is_sequence :: "pyobj \<Rightarrow> bool" where
  "is_sequence (PyTuple _) = True"
| "is_sequence (PyList _) = True"
| "is_sequence _ = False"

fun is_number :: "pyobj \<Rightarrow> bool" where
  "is_number (PyFloat _) = True"
| "is_number (PyInt _) = True"
| "is_number (PyBool _) = True"
| "is_number _ = False"

fun items :: "pyobj \<Rightarrow> pyobj list" where
  "items (PyTuple xs) = xs"
| "items (PyList xs) = xs"
| "items _ = []"

text \<open>\<open>pd.DataFrame(rows)\<close> for a list of rows: when every row is a list or a tuple, the
  table has as many columns as the longest row has cells, and shorter rows are filled with
  missing cells. What pandas makes of other rows is left to the environment. The result is
  the column count and the rows.\<close>

definition frame_of_rows :: "env \<Rightarrow> pyobj list \<Rightarrow> error + nat \<times> pyobj list list" where
  "frame_of_rows e xs =
     (if \<forall>x \<in> set xs. is_sequence x
      then (let n = foldr max (map (length \<circ> items) xs) 0
            in Inr (n, map (\<lambda>x. items x @ replicate (n - length (items x)) PyNone) xs))
      else irregular_frame e xs)"

definition unsupported_shape :: string where
  "unsupported_shape = ''only two types of input are supported: 1. [10, 20] or [[10, 20], [30, 30]]''"

text \<open>
  The table \<open>from_tuples\<close> builds from its argument, by the type of the first element
  \<open>location_peek\<close>: \<open>pd.DataFrame(locations)\<close> for a sequence of sequences,
  \<open>pd.DataFrame([locations])\<close>, one row with a column for each element, for a sequence that
  starts with a number, and the \<open>TypeError\<close> otherwise.
\<close>

definition locations_frame :: "env \<Rightarrow> pyobj \<Rightarrow> pyobj list \<Rightarrow> error + nat \<times> pyobj list list" where
  "locations_frame e location_peek locs =
     (if is_sequence location_peek then frame_of_rows e locs
      else if is_number location_peek then Inr (length locs, [locs])
      else Inl (TypeError unsupported_shape))"

text \<open>\<open>locations_df.columns = names\<close>: pandas raises its length-mismatch \<open>ValueError\<close> unless
  there is one name for each column.\<close>

definition set_columns ::
  "nat \<times> pyobj list list \<Rightarrow> string list \<Rightarrow> error + string list \<times> pyobj list list" where
  "set_columns frame names =
     (if fst frame \<noteq> length names then Inl ValueError else Inr (names, snd frame))"

definition from_tuples :: "env \<Rightarrow> pyobj list \<Rightarrow> date \<Rightarrow> date \<Rightarrow> error + downloader" where
  "from_tuples e locs sd ed =
     (case locs of
        [] \<Rightarrow> Inl IndexError
      | location_peek # _ \<Rightarrow>
          (case locations_frame e location_peek locs of
             Inl err \<Rightarrow> Inl err
           | Inr locations_df \<Rightarrow>
               (case set_columns locations_df [''LAT'', ''LON''] of
                  Inl err \<Rightarrow> Inl err
                | Inr (cols, rows) \<Rightarrow> init e cols rows sd ed ''LAT'' ''LON'')))"

section \<open>Reading a grid file\<close>

text \<open>
  \<open>read_dataset\<close> reads the decoded file at a local path and brings the longitudes, which the
  files hold in \<open>[0, 360)\<close>, to \<open>[-180, 180]\<close>.
\<close>

definition normalize_lon :: "real \<Rightarrow> real" where
  "normalize_lon term = (if term \<le> 180 then term else term - 360)"

definition read_dataset :: "(string \<rightharpoonup> dataset) \<Rightarrow> string \<Rightarrow> error + dataset" where
  "read_dataset files local_data_dir =
     (case files local_data_dir of
        None \<Rightarrow> Inl FileNotFoundError
      | Some sst_data \<Rightarrow> Inr (sst_data\<lparr>lon := map normalize_lon (lon sst_data)\<rparr>))"

section \<open>Nearest grid cell\<close>

text \<open>
  \<open>build_2d_meshgrid\<close> pairs every latitude with every longitude, the latitude varying
  fastest, as \<open>np.meshgrid\<close> followed by \<open>reshape(-1)\<close> does. The positions of the nearest
  candidates come from the query of the library, and indexing the index matrix with a
  position outside it raises \<open>IndexError\<close>. \<open>euclid\<close> is the Euclidean distance of two points.
\<close>

definition build_2d_meshgrid :: "'a list \<Rightarrow> 'a list \<Rightarrow> ('a \<times> 'a) list" where
  "build_2d_meshgrid la lo = concat (map (\<lambda>y. map (\<lambda>x. (x, y)) la) lo)"

definition euclid :: "real \<times> real \<Rightarrow> real \<times> real \<Rightarrow> real" where
  "euclid p q = sqrt ((fst p - fst q)\<^sup>2 + (snd p - snd q)\<^sup>2)"

text \<open>The query takes its points as finite floats: a number is taken as it is, and what
  numpy makes of any other cell is left to the environment.\<close>

fun to_float :: "env \<Rightarrow> pyobj \<Rightarrow> error + real" where
  "to_float e (PyFloat x) = Inr x"
| "to_float e (PyInt i) = Inr (of_int i)"
| "to_float e (PyBool b) = Inr (if b then 1 else 0)"
| "to_float e x = to_float64 e x"

fun as_point :: "env \<Rightarrow> pyobj list \<Rightarrow> error + real \<times> real" where
  "as_point e [a, b] =
     (case to_float e a of Inl err \<Rightarrow> Inl err
      | Inr x \<Rightarrow> (case to_float e b of Inl err \<Rightarrow> Inl err | Inr y \<Rightarrow> Inr (x, y)))"
| "as_point e _ = Inl ValueError"

fun as_points :: "env \<Rightarrow> pyobj list list \<Rightarrow> error + (real \<times> real) list" where
  "as_points e [] = Inr []"
| "as_points e (r # rs) =
     (case as_point e r of
        Inl err \<Rightarrow> Inl err
      | Inr p \<Rightarrow> (case as_points e rs of Inl err \<Rightarrow> Inl err | Inr ps \<Rightarrow> Inr (p # ps)))"

definition get_lat_lon_index ::
  "env \<Rightarrow> downloader \<Rightarrow> real list \<Rightarrow> real list \<Rightarrow> error + nat list \<times> nat list" where
  "get_lat_lon_index e self la lo =
     (let lat_idx = [0..<length la];
          lon_idx = [0..<length lo];
          lat_lon_matrix = build_2d_meshgrid la lo;
          lat_lon_idx_matrix = build_2d_meshgrid lat_idx lon_idx
      in case as_points e (locations self) of
           Inl err \<Rightarrow> Inl err
         | Inr pts \<Rightarrow>
             (let idx = map (kdtree_query e lat_lon_matrix) pts
              in if \<forall>i \<in> set idx. i < length lat_lon_idx_matrix
                 then Inr (map (\<lambda>i. fst (lat_lon_idx_matrix ! i)) idx,
                           map (\<lambda>i. snd (lat_lon_idx_matrix ! i)) idx)
                 else Inl IndexError))"

section \<open>Time index\<close>

text \<open>
  \<open>date(1800, 1, 1) + timedelta(int(t))\<close>: 657072 is the ordinal of 1800-01-01 and 3652059
  that of 9999-12-31, the last date Python has; outside that range the sum raises
  \<open>OverflowError\<close>. The dictionary from date text to position is built in axis order, a later
  entry replacing an earlier one with the same date, and the requested time stamps are looked
  up by the text before the first blank of their \<open>str\<close>.
\<close>

definition decode_day :: "int \<Rightarrow> error + date" where
  "decode_day t =
     (let n = 657072 + t in if 1 \<le> n \<and> n \<le> 3652059 then Inr (nat n) else Inl OverflowError)"

fun regular_time_to_index ::
  "int list \<Rightarrow> nat \<Rightarrow> (string \<rightharpoonup> nat) \<Rightarrow> error + (string \<rightharpoonup> nat)" where
  "regular_time_to_index [] i m = Inr m"
| "regular_time_to_index (t # ts) i m =
     (case decode_day t of
        Inl err \<Rightarrow> Inl err
      | Inr d \<Rightarrow> regular_time_to_index ts (Suc i) (m(isoformat d \<mapsto> i)))"

fun lookup_times :: "(string \<rightharpoonup> nat) \<Rightarrow> timestamp list \<Rightarrow> error + nat list" where
  "lookup_times m [] = Inr []"
| "lookup_times m (regular_time # rest) =
     (let key = takeWhile (\<lambda>c. c \<noteq> CHR '' '') (str_timestamp regular_time)
      in case m key of
           None \<Rightarrow> Inl (KeyError key)
         | Some i \<Rightarrow> (case lookup_times m rest of Inl err \<Rightarrow> Inl err | Inr js \<Rightarrow> Inr (i # js)))"

definition get_time_index :: "dataset \<Rightarrow> timestamp list \<Rightarrow> error + nat list" where
  "get_time_index ds list_of_regular_time =
     (case regular_time_to_index (time ds) 0 Map.empty of
        Inl err \<Rightarrow> Inl err
      | Inr m \<Rightarrow> lookup_times m list_of_regular_time)"

section \<open>Year partition\<close>

text \<open>
  A \<open>defaultdict(list)\<close> is the list of its items in insertion order; \<open>append_at\<close> is
  \<open>d[k].append(v)\<close>. \<open>date_range\<close> is \<open>pd.date_range(start_date, end_date)\<close> for two calendar
  dates: the midnight time stamps of every day from the first to the last. \<open>path_join\<close> is
  \<open>os.path.join\<close> for a relative second path.
\<close>

fun append_at :: "('k \<times> 'v list) list \<Rightarrow> 'k \<Rightarrow> 'v \<Rightarrow> ('k \<times> 'v list) list" where
  "append_at [] k v = [(k, [v])]"
| "append_at ((k', vs) # m) k v =
     (if k' = k then (k', vs @ [v]) # m else (k', vs) # append_at m k v)"

definition date_range :: "date \<Rightarrow> date \<Rightarrow> timestamp list" where
  "date_range sd ed = map (\<lambda>d. \<lparr>ts_date = d, ts_secs = 0\<rparr>) [sd..<Suc ed]"

definition year :: "timestamp \<Rightarrow> nat" where
  "year ts = year_of (ts_date ts)"

definition file_name :: "nat \<Rightarrow> string" where
  "file_name y = ''sst.day.mean.'' @ str_nat y @ ''.nc''"

definition path_join :: "string \<Rightarrow> string \<Rightarrow> string" where
  "path_join a b = (if a = [] \<or> last a = CHR ''/'' then a @ b else a @ ''/'' @ b)"

definition year_to_timestamp :: "downloader \<Rightarrow> (nat \<times> timestamp list) list" where
  "year_to_timestamp self =
     foldl (\<lambda>m time_stamp. append_at m (year time_stamp) time_stamp) []
       (date_range (start_date self) (end_date self))"

definition remote_to_local_dir_mapping ::
  "downloader \<Rightarrow> (string \<times> (string \<times> timestamp list) list) list" where
  "remote_to_local_dir_mapping self =
     foldl (\<lambda>m (y, stamps).
              append_at m (sst_data_parent_dir self @ file_name y)
                (path_join (temp_dir self) (file_name y), stamps))
       [] (year_to_timestamp self)"

section \<open>Download\<close>

text \<open>
  \<open>download_to_local\<close> retrieves a URL to a local path unless a file is there already.
  \<open>extract_year\<close> is the part of the loop body of \<open>download\<close> after the file has been read:
  the rows of one year. \<open>np_repeat\<close> repeats each element \<open>n\<close> times, \<open>np_tile\<close> repeats the
  whole list \<open>n\<close> times. \<open>download_years\<close> is the loop over the items of the mapping, with
  the files of the temporary directory as its state, and \<open>assemble\<close> is what follows the
  loop: \<open>pd.concat\<close> (which raises \<open>ValueError\<close> on an empty list), the count of missing
  values with its warning, and the replacement of the values below \<open>-9e35\<close>. The temporary
  directory is new, so \<open>download\<close> starts with no file in it.
\<close>

definition download_to_local ::
  "env \<Rightarrow> string \<Rightarrow> string \<Rightarrow> (string \<rightharpoonup> dataset) \<Rightarrow> error + (string \<rightharpoonup> dataset)" where
  "download_to_local e link_in dir_out files =
     (if files dir_out \<noteq> None then Inr files
      else case remote e link_in of
             None \<Rightarrow> Inl URLError
           | Some d \<Rightarrow> Inr (files(dir_out \<mapsto> d)))"

definition np_repeat :: "'a list \<Rightarrow> nat \<Rightarrow> 'a list" where
  "np_repeat xs n = concat (map (replicate n) xs)"

definition np_tile :: "'a list \<Rightarrow> nat \<Rightarrow> 'a list" where
  "np_tile xs n = concat (replicate n xs)"

definition extract_year ::
  "env \<Rightarrow> downloader \<Rightarrow> dataset \<Rightarrow> timestamp list \<Rightarrow> error + row list" where
  "extract_year e self ds all_dates_in_that_year =
     (case get_time_index ds all_dates_in_that_year of
        Inl err \<Rightarrow> Inl err
      | Inr time_index \<Rightarrow>
     (case get_lat_lon_index e self (lat ds) (lon ds) of
        Inl err \<Rightarrow> Inl err
      | Inr (lat_index, lon_index) \<Rightarrow>
         (let time_st = np_repeat time_index (length lat_index);
              lat_st = np_tile lat_index (length time_index);
              lon_st = np_tile lon_index (length time_index);
              sstv = map (\<lambda>(t, i, j). sst ds t i j) (zip time_st (zip lat_st lon_st));
              latv = map (\<lambda>i. lat ds ! i) lat_st;
              lonv = map (\<lambda>j. lon ds ! j) lon_st;
              datev = np_repeat all_dates_in_that_year (length lat_index)
          in Inr (map (\<lambda>(d, la, lo, s). \<lparr>DATE = d, LAT = la, LON = lo, SST = s\<rparr>)
                    (zip datev (zip latv (zip lonv sstv)))))))"

fun download_years ::
  "env \<Rightarrow> downloader \<Rightarrow> (string \<rightharpoonup> dataset) \<Rightarrow> (string \<times> (string \<times> timestamp list) list) list
     \<Rightarrow> error + row list list" where
  "download_years e self files [] = Inr []"
| "download_years e self files ((url, bundle) # rest) =
     (case bundle of
        [] \<Rightarrow> Inl IndexError
      | (local_dir, all_dates_in_that_year) # _ \<Rightarrow>
     (case download_to_local e url local_dir files of
        Inl err \<Rightarrow> Inl err
      | Inr files' \<Rightarrow>
     (case read_dataset files' local_dir of
        Inl err \<Rightarrow> Inl err
      | Inr ds \<Rightarrow>
     (case extract_year e self ds all_dates_in_that_year of
        Inl err \<Rightarrow> Inl err
      | Inr df \<Rightarrow>
     (case download_years e self files' rest of
        Inl err \<Rightarrow> Inl err
      | Inr dfs \<Rightarrow> Inr (df # dfs))))))"

definition missing_threshold :: real where
  "missing_threshold = - (9 * 10 ^ 35)"

definition mark_missing :: "row \<Rightarrow> row" where
  "mark_missing r = (if lt_real (SST r) missing_threshold then r\<lparr>SST := NaN\<rparr> else r)"

definition assemble :: "row list list \<Rightarrow> error + row list \<times> warning list" where
  "assemble result =
     (if result = [] then Inl ValueError
      else (let output = concat result;
                null_values = length (filter (\<lambda>r. isnull (SST r)) output);
                warned = (if null_values = length output then [AllNullWarning] else [])
            in Inr (map mark_missing output, warned)))"

definition download :: "env \<Rightarrow> downloader \<Rightarrow> error + row list \<times> warning list" where
  "download e self =
     (case download_years e self Map.empty (remote_to_local_dir_mapping self) of
        Inl err \<Rightarrow> Inl err
      | Inr result \<Rightarrow> assemble result)"

definition download_sst :: "env \<Rightarrow> pyobj \<Rightarrow> date \<Rightarrow> date \<Rightarrow> error + row list \<times> warning list" where
  "download_sst e locs sd ed =
     (case locs of
        PyDataFrame cols rows \<Rightarrow>
          (case init e cols rows sd ed ''LAT'' ''LON'' of
             Inl err \<Rightarrow> Inl err | Inr downloader \<Rightarrow> download e downloader)
      | PyTuple xs \<Rightarrow>
          (case from_tuples e xs sd ed of
             Inl err \<Rightarrow> Inl err | Inr downloader \<Rightarrow> download e downloader)
      | PyList xs \<Rightarrow>
          (case from_tuples e xs sd ed of
             Inl err \<Rightarrow> Inl err | Inr downloader \<Rightarrow> download e downloader)
      | PyStr s \<Rightarrow>
          (if length s = 2
           then Inl (TypeError (''we do not support state abbreviation when downloading sst,'' @
                                ''since such data are only available on the sea.''))
           else if length s > 2
           then Inl (TypeError (''we do not support address as input when downloading sst,'' @
                                ''since such data are only available on the sea''))
           else Inl (TypeError ''only list of coordinates or datframes are supported''))
      | _ \<Rightarrow> Inl (TypeError ''only list of coordinates or datframes are supported''))"

section \<open>The nearest-neighbour query of the library\<close>

text \<open>
  \<open>KDTree(data)\<close> with at most ten data points (the default leaf size) is a single leaf, and
  \<open>query\<close> scans it in data order, keeping a point only when its squared distance is strictly
  smaller than the best so far. The squared distance is computed in binary64: the
  differences, their squares and the sum are each rounded to the nearest double, ties to
  even. \<open>round64\<close> is that rounding with 53 significant bits and no bound on the exponent, so
  it is the rounding of binary64 on the numbers that neither overflow nor underflow.
  \<open>leaf_query\<close> is the scan; it stands for the library only on data of at most ten points,
  and the grids evaluated below have at most four cells.
\<close>

function bit_length :: "nat \<Rightarrow> nat" where
  "bit_length n = (if n = 0 then 0 else Suc (bit_length (n div 2)))"
  by pat_completeness auto
termination
  by (relation "measure id") auto

declare bit_length.simps [simp del]

definition pow2 :: "int \<Rightarrow> real" where
  "pow2 k = (if 0 \<le> k then 2 ^ nat k else 1 / 2 ^ nat (- k))"

definition exponent :: "real \<Rightarrow> int" where
  "exponent x =
     (if 1 \<le> x then int (bit_length (nat \<lfloor>x\<rfloor>)) - 1
      else - int (bit_length (nat (\<lceil>1 / x\<rceil> - 1))))"

definition round_even :: "real \<Rightarrow> int" where
  "round_even r =
     (let f = \<lfloor>r\<rfloor>; d = r - of_int f
      in if d < 1 / 2 then f else if 1 / 2 < d then f + 1 else if even f then f else f + 1)"

definition round64 :: "real \<Rightarrow> real" where
  "round64 x =
     (if x = 0 then 0
      else if 0 < x then of_int (round_even (x * pow2 (52 - exponent x))) * pow2 (exponent x - 52)
      else - (of_int (round_even (- x * pow2 (52 - exponent (- x)))) * pow2 (exponent (- x) - 52)))"

definition sq_dist64 :: "real \<times> real \<Rightarrow> real \<times> real \<Rightarrow> real" where
  "sq_dist64 u v =
     (let d0 = round64 (fst u - fst v); d1 = round64 (snd u - snd v)
      in round64 (round64 (d0 * d0) + round64 (d1 * d1)))"

primrec first_min :: "real list \<Rightarrow> nat" where
  "first_min [] = 0"
| "first_min (d # ds) = (if \<forall>e \<in> set ds. d \<le> e then 0 else Suc (first_min ds))"

definition leaf_query :: "(real \<times> real) list \<Rightarrow> real \<times> real \<Rightarrow> nat" where
  "leaf_query data x = first_min (map (sq_dist64 x) data)"


lemmas float_eval = sq_dist64_def round64_def exponent_def bit_length.simps pow2_def round_even_def
  Let_def


















section \<open>A one-cell grid and a one-day request\<close>

definition one_cell :: "sstval \<Rightarrow> dataset" where
  "one_cell v = \<lparr>lat = [10], lon = [200], time = [77064], sst = (\<lambda>t i j. v)\<rparr>"

definition noaa :: string where
  "noaa = ''ftp://ftp.cdc.noaa.gov/Datasets/noaa.oisst.v2.highres/''"

definition one_cell_env :: "sstval \<Rightarrow> env" where
  "one_cell_env v = \<lparr>mkdtemp = Some ''/tmp/t'',
     remote = [noaa @ ''sst.day.mean.2010.nc'' \<mapsto> one_cell v],
     irregular_frame = (\<lambda>rows. Inl ValueError), to_float64 = (\<lambda>cell. Inl ValueError),
     kdtree_query = leaf_query\<rparr>"

definition one_point :: downloader where
  "one_point = \<lparr>sst_data_parent_dir = noaa, temp_dir = ''/tmp/t'',
     locations = [[PyFloat 11, PyFloat (-150)]], start_date = 734136, end_date = 734136\<rparr>"

text \<open>An environment in which no directory can be made and nothing can be retrieved; its
  grids are small enough for the query of the library to scan a single leaf.\<close>

definition offline :: env where
  "offline = \<lparr>mkdtemp = None, remote = Map.empty,
     irregular_frame = (\<lambda>rows. Inl ValueError), to_float64 = (\<lambda>cell. Inl ValueError),
     kdtree_query = leaf_query\<rparr>"

lemmas calendar_eval = ord2ymd_def year_of_def year_from.simps days_before_year_def month_from.simps
  days_in_month_def is_leap_def

lemmas string_eval = isoformat_def str_timestamp_def zfill_def str_nat.simps digit_char_def

lemma epoch_ordinal: "ymd2ord 1800 1 1 = 657072" "ord2ymd 657072 = (1800, 1, 1)"
  by (simp_all add: ymd2ord_def days_before_month.simps calendar_eval)

lemma last_ordinal: "ymd2ord 9999 12 31 = 3652059" "ord2ymd 3652059 = (9999, 12, 31)"
  by (simp_all add: ymd2ord_def days_before_month.simps calendar_eval)

lemma isoformat_example: "isoformat 734136 = ''2010-12-30''"
  by (simp add: calendar_eval string_eval)

lemma one_point_mapping: "remote_to_local_dir_mapping one_point =
   [(noaa @ ''sst.day.mean.2010.nc'', [(''/tmp/t/sst.day.mean.2010.nc'', [\<lparr>ts_date = 734136, ts_secs = 0\<rparr>])])]"
  by (simp add: remote_to_local_dir_mapping_def year_to_timestamp_def date_range_def one_point_def year_def
    year_of_def year_from.simps days_before_year_def file_name_def path_join_def str_nat.simps digit_char_def
    upt_rec [of 734136])


lemma one_day_time_index: "time ds = [77064] \<Longrightarrow> get_time_index ds [\<lparr>ts_date = 734136, ts_secs = 0\<rparr>] = Inr [0]"
  by (simp add: get_time_index_def decode_day_def calendar_eval string_eval)

lemma one_point_lat_lon_index:
  "kdtree_query e = leaf_query \<Longrightarrow> get_lat_lon_index e one_point [10] [-160] = Inr ([0], [0])"
  by (simp add: get_lat_lon_index_def one_point_def build_2d_meshgrid_def leaf_query_def Let_def)

lemma one_cell_download: "download (one_cell_env v) one_point =
  Inr ([\<lparr>DATE = \<lparr>ts_date = 734136, ts_secs = 0\<rparr>, LAT = 10, LON = -160,
         SST = (if lt_real v missing_threshold then NaN else v)\<rparr>],
       if isnull v then [AllNullWarning] else [])"
  by (simp add: download_def one_point_mapping one_cell_env_def download_to_local_def read_dataset_def
      normalize_lon_def extract_year_def one_day_time_index one_point_lat_lon_index one_cell_def Let_def
      np_repeat_def np_tile_def assemble_def mark_missing_def noaa_def)

section \<open>Longitude normalisation\<close>

lemma normalize_lon_cases:
  "(- 180 \<le> x \<and> x \<le> 180 \<longrightarrow> normalize_lon x = x \<and> normalize_lon (normalize_lon x) = normalize_lon x)
   \<and> (180 < x \<longrightarrow> normalize_lon x = x - 360)
   \<and> (180 < x \<and> x < 360 \<longrightarrow> - 180 \<le> normalize_lon x \<and> normalize_lon x < 180)"
  by (simp add: normalize_lon_def)

text \<open>
  C7. \<open>read_dataset\<close> changes nothing but the longitudes. A raw longitude in \<open>[-180, 180]\<close>
  is kept as it is (and normalising it again changes nothing), a raw longitude above 180 has
  exactly 360 subtracted, and a raw longitude strictly between 180 and 360 ends up in
  \<open>[-180, 180)\<close>.
\<close>

theorem read_dataset_normalizes_longitude:
  assumes "read_dataset files p = Inr ds"
  shows "\<exists>raw. files p = Some raw \<and> lat ds = lat raw \<and> time ds = time raw \<and> sst ds = sst raw
    \<and> length (lon ds) = length (lon raw)
    \<and> (\<forall>i < length (lon raw).
         (- 180 \<le> lon raw ! i \<and> lon raw ! i \<le> 180 \<longrightarrow>
            lon ds ! i = lon raw ! i \<and> normalize_lon (lon ds ! i) = lon ds ! i)
         \<and> (180 < lon raw ! i \<longrightarrow> lon ds ! i = lon raw ! i - 360)
         \<and> (180 < lon raw ! i \<and> lon raw ! i < 360 \<longrightarrow> - 180 \<le> lon ds ! i \<and> lon ds ! i < 180))"
proof (cases "files p")
  case None
  with assms show ?thesis by (simp add: read_dataset_def)
next
  case (Some raw)
  with assms have ds: "ds = raw\<lparr>lon := map normalize_lon (lon raw)\<rparr>"
    by (simp add: read_dataset_def)
  have "\<forall>i < length (lon raw).
         (- 180 \<le> lon raw ! i \<and> lon raw ! i \<le> 180 \<longrightarrow>
            lon ds ! i = lon raw ! i \<and> normalize_lon (lon ds ! i) = lon ds ! i)
         \<and> (180 < lon raw ! i \<longrightarrow> lon ds ! i = lon raw ! i - 360)
         \<and> (180 < lon raw ! i \<and> lon raw ! i < 360 \<longrightarrow> - 180 \<le> lon ds ! i \<and> lon ds ! i < 180)"
    using normalize_lon_cases by (simp add: ds)
  with Some ds show ?thesis by simp
qed

theorem read_dataset_normalizes_longitude_witness:
  "read_dataset [''f'' \<mapsto> \<lparr>lat = [10], lon = [0, 180, 180.125, 359.875], time = [77064], sst = (\<lambda>t i j. NaN)\<rparr>] ''f''
     = Inr \<lparr>lat = [10], lon = [0, 180, - 179.875, - 0.125], time = [77064], sst = (\<lambda>t i j. NaN)\<rparr>
   \<and> (\<exists>raw. [''f'' \<mapsto> \<lparr>lat = [10], lon = [0, 180, 180.125, 359.875], time = [77064], sst = (\<lambda>t i j. NaN)\<rparr>] ''f'' = Some raw
        \<and> length (lon raw) = 4 \<and> lon raw ! 2 = 180.125
        \<and> lon \<lparr>lat = [10], lon = [0, 180, - 179.875, - 0.125::real], time = [77064], sst = (\<lambda>t i j. NaN)\<rparr> ! 2
            = lon raw ! 2 - 360)"
proof -
  let ?raw = "\<lparr>lat = [10], lon = [0, 180, 180.125, 359.875], time = [77064], sst = (\<lambda>t i j. NaN)\<rparr>"
  let ?ds = "\<lparr>lat = [10], lon = [0, 180, - 179.875, - 0.125], time = [77064], sst = (\<lambda>t i j. NaN)\<rparr>"
  have h: "read_dataset [''f'' \<mapsto> ?raw] ''f'' = Inr ?ds"
    by (simp add: read_dataset_def normalize_lon_def)
  from read_dataset_normalizes_longitude [OF h] h show ?thesis
    by simp
qed

section \<open>Sentinel values and the all-missing warning\<close>

lemma assemble_rows:
  assumes "assemble result = Inr (output, warned)"
  shows "output = map mark_missing (concat result)"
    and "warned = (if length (filter (\<lambda>r. isnull (SST r)) (concat result)) = length (concat result)
                   then [AllNullWarning] else [])"
    and "result \<noteq> []"
  using assms by (auto simp add: assemble_def Let_def split: if_splits)

lemma mark_missing_fields:
  "DATE (mark_missing r) = DATE r" "LAT (mark_missing r) = LAT r" "LON (mark_missing r) = LON r"
  "lt_real (SST r) missing_threshold \<Longrightarrow> SST (mark_missing r) = NaN"
  "\<not> lt_real (SST r) missing_threshold \<Longrightarrow> SST (mark_missing r) = SST r"
  by (simp_all add: mark_missing_def)

lemma download_result:
  assumes "download e self = Inr (output, warned)"
  shows "\<exists>result. download_years e self Map.empty (remote_to_local_dir_mapping self) = Inr result
           \<and> assemble result = Inr (output, warned)"
  using assms by (simp add: download_def split: sum.splits)

text \<open>
  C1 (as amended). In every run of \<open>download\<close> that returns, the returned table has one row
  per extracted row, with the same date and coordinates; a raw SST value strictly below
  \<open>-9e35\<close> (the sentinel \<open>-9.96921e+36\<close> is one) is replaced by the missing marker, and a raw
  value that is not strictly below \<open>-9e35\<close> is returned as it was extracted.
\<close>

theorem download_marks_missing:
  assumes "download e self = Inr (output, warned)"
  shows "\<exists>result. download_years e self Map.empty (remote_to_local_dir_mapping self) = Inr result
    \<and> length output = length (concat result)
    \<and> (\<forall>i < length output.
          DATE (output ! i) = DATE (concat result ! i)
          \<and> LAT (output ! i) = LAT (concat result ! i)
          \<and> LON (output ! i) = LON (concat result ! i)
          \<and> (lt_real (SST (concat result ! i)) missing_threshold \<longrightarrow> SST (output ! i) = NaN)
          \<and> (\<not> lt_real (SST (concat result ! i)) missing_threshold \<longrightarrow>
                SST (output ! i) = SST (concat result ! i)))
    \<and> lt_real (Num (- (996921 * 10 ^ 31))) missing_threshold"
proof -
  from download_result [OF assms] obtain result
    where r: "download_years e self Map.empty (remote_to_local_dir_mapping self) = Inr result"
      and a: "assemble result = Inr (output, warned)" by blast
  have out: "output = map mark_missing (concat result)" by (rule assemble_rows(1) [OF a])
  have "lt_real (Num (- (996921 * 10 ^ 31))) missing_threshold"
    by (simp add: missing_threshold_def)
  with r out show ?thesis by (simp add: mark_missing_fields)
qed

theorem download_marks_missing_witness:
  "download (one_cell_env (Num (- (996921 * 10 ^ 31)))) one_point =
     Inr ([\<lparr>DATE = \<lparr>ts_date = 734136, ts_secs = 0\<rparr>, LAT = 10, LON = - 160, SST = NaN\<rparr>], [])
   \<and> (\<exists>result. download_years (one_cell_env (Num (- (996921 * 10 ^ 31)))) one_point Map.empty
          (remote_to_local_dir_mapping one_point) = Inr result
        \<and> length (concat result) = 1)"
proof -
  have h: "download (one_cell_env (Num (- (996921 * 10 ^ 31)))) one_point =
     Inr ([\<lparr>DATE = \<lparr>ts_date = 734136, ts_secs = 0\<rparr>, LAT = 10, LON = - 160, SST = NaN\<rparr>], [])"
    by (simp add: one_cell_download missing_threshold_def)
  from download_marks_missing [OF h] h show ?thesis by auto
qed

theorem download_threshold_counterexample:
  "le_real (sst (one_cell (Num (- (9 * 10 ^ 35)))) 0 0 0) (- (9 * 10 ^ 35))
   \<and> download (one_cell_env (Num (- (9 * 10 ^ 35)))) one_point =
       Inr ([\<lparr>DATE = \<lparr>ts_date = 734136, ts_secs = 0\<rparr>, LAT = 10, LON = - 160,
              SST = Num (- (9 * 10 ^ 35))\<rparr>], [])"
  by (simp add: one_cell_download missing_threshold_def one_cell_def)

text \<open>
  C2. On a grid whose only cell holds the sentinel value, \<open>download\<close> returns the one expected
  row with its SST missing, and raises no warning: the count of missing values is taken
  before the sentinel values are replaced.
\<close>

theorem download_all_sentinel_no_warning:
  "download (one_cell_env (Num (- (996921 * 10 ^ 31)))) one_point =
     Inr ([\<lparr>DATE = \<lparr>ts_date = 734136, ts_secs = 0\<rparr>, LAT = 10, LON = - 160, SST = NaN\<rparr>], [])"
  by (simp add: one_cell_download missing_threshold_def)

section \<open>Rejected location inputs\<close>

lemma number_not_sequence: "is_number x \<Longrightarrow> \<not> is_sequence x"
  by (cases x) simp_all

lemma download_sst_string: "\<exists>msg. download_sst e (PyStr s) sd ed = Inl (TypeError msg)"
  by (simp add: download_sst_def)

text \<open>
  C10. A flat sequence whose first element is a number and whose length is not 2 does not
  get the unsupported-shape \<open>TypeError\<close> of \<open>from_tuples\<close>: the table built from it has one row
  and as many columns as the sequence has elements, and naming its columns \<open>LAT\<close> and \<open>LON\<close>
  fails with the length-mismatch \<open>ValueError\<close> of pandas. \<open>download_sst\<close> passes that error
  on, for a list and for a tuple.
\<close>

theorem from_tuples_flat_wrong_length:
  assumes "is_number x" "length (x # xs) \<noteq> 2"
  shows "locations_frame e x (x # xs) = Inr (length (x # xs), [x # xs])
    \<and> set_columns (length (x # xs), [x # xs]) [''LAT'', ''LON''] = Inl ValueError
    \<and> from_tuples e (x # xs) sd ed = Inl ValueError
    \<and> from_tuples e (x # xs) sd ed \<noteq> Inl (TypeError unsupported_shape)
    \<and> download_sst e (PyList (x # xs)) sd ed = Inl ValueError
    \<and> download_sst e (PyTuple (x # xs)) sd ed = Inl ValueError"
proof -
  have f: "locations_frame e x (x # xs) = Inr (length (x # xs), [x # xs])"
    using assms(1) number_not_sequence [OF assms(1)] by (simp add: locations_frame_def)
  have c: "set_columns (length (x # xs), [x # xs]) [''LAT'', ''LON''] = Inl ValueError"
    using assms(2) by (simp add: set_columns_def)
  have "from_tuples e (x # xs) sd ed = Inl ValueError"
    by (simp only: from_tuples_def list.case f c sum.case)
  with f c show ?thesis by (simp add: download_sst_def)
qed

theorem from_tuples_flat_wrong_length_witness:
  "is_number (PyInt 10) \<and> length [PyInt 10, PyInt 20, PyInt 30] \<noteq> 2
   \<and> locations_frame offline (PyInt 10) [PyInt 10, PyInt 20, PyInt 30]
       = Inr (3, [[PyInt 10, PyInt 20, PyInt 30]])
   \<and> from_tuples offline [PyInt 10, PyInt 20, PyInt 30] 734136 734139 = Inl ValueError
   \<and> download_sst offline (PyList [PyInt 10, PyInt 20, PyInt 30]) 734136 734139 = Inl ValueError"
  using from_tuples_flat_wrong_length [of "PyInt 10" "[PyInt 20, PyInt 30]" offline 734136 734139]
  by simp

lemma download_sst_other_type:
  "\<not> is_sequence x \<Longrightarrow> \<forall>cols rows. x \<noteq> PyDataFrame cols rows \<Longrightarrow>
   \<exists>msg. download_sst e x sd ed = Inl (TypeError msg)"
  by (cases x) (simp_all add: download_sst_def)

text \<open>
  C9. A flat list of three numbers is none of a table, a pair, a list of pairs or a tuple,
  and \<open>download_sst\<close> answers it with the length-mismatch error, not with a \<open>TypeError\<close>.
\<close>

theorem download_sst_flat_triple:
  "download_sst e (PyList [PyInt 10, PyInt 20, PyInt 30]) sd ed = Inl ValueError"
  by (simp add: download_sst_def from_tuples_def locations_frame_def set_columns_def)

section \<open>Time index\<close>

definition index_of_axis :: "int list \<Rightarrow> (string \<rightharpoonup> nat) \<Rightarrow> bool" where
  "index_of_axis axis m \<longleftrightarrow>
     (\<forall>key j. m key = Some j \<longrightarrow>
        j < length axis \<and> (\<exists>d. decode_day (axis ! j) = Inr d \<and> isoformat d = key))"

lemma index_of_axis_empty: "index_of_axis [] Map.empty"
  by (simp add: index_of_axis_def)

lemma index_of_axis_step:
  assumes "index_of_axis pre m" "decode_day t = Inr d"
  shows "index_of_axis (pre @ [t]) (m(isoformat d \<mapsto> length pre))"
  unfolding index_of_axis_def
proof (intro allI impI)
  fix key j
  assume look: "(m(isoformat d \<mapsto> length pre)) key = Some j"
  show "j < length (pre @ [t]) \<and> (\<exists>d. decode_day ((pre @ [t]) ! j) = Inr d \<and> isoformat d = key)"
  proof (cases "key = isoformat d")
    case True
    with look have "j = length pre" by simp
    with True assms(2) show ?thesis by simp
  next
    case False
    with look have "m key = Some j" by simp
    with assms(1) have "j < length pre" and "\<exists>d. decode_day (pre ! j) = Inr d \<and> isoformat d = key"
      by (simp_all add: index_of_axis_def)
    then show ?thesis by (simp add: nth_append)
  qed
qed

lemma regular_time_to_index_sound:
  "regular_time_to_index ts (length pre) m = Inr m' \<Longrightarrow> index_of_axis pre m \<Longrightarrow>
   index_of_axis (pre @ ts) m'"
proof (induction ts arbitrary: pre m)
  case Nil
  then show ?case by simp
next
  case (Cons t ts)
  from Cons.prems(1) obtain d where d: "decode_day t = Inr d"
    and rest: "regular_time_to_index ts (Suc (length pre)) (m(isoformat d \<mapsto> length pre)) = Inr m'"
    by (auto split: sum.splits)
  from rest have "regular_time_to_index ts (length (pre @ [t])) (m(isoformat d \<mapsto> length pre)) = Inr m'"
    by simp
  from Cons.IH [OF this index_of_axis_step [OF Cons.prems(2) d]]
  show ?case by simp
qed

lemma regular_time_to_index_error:
  "regular_time_to_index ts i m = Inl err \<Longrightarrow> err = OverflowError"
proof (induction ts arbitrary: i m)
  case Nil
  then show ?case by simp
next
  case (Cons t ts)
  show ?case
  proof (cases "decode_day t")
    case (Inl e)
    then have "e = OverflowError" by (simp add: decode_day_def Let_def split: if_splits)
    with Inl Cons.prems show ?thesis by simp
  next
    case (Inr d)
    with Cons.prems Cons.IH show ?thesis by simp
  qed
qed

lemma regular_time_to_index_total:
  "\<forall>t \<in> set ts. decode_day t \<noteq> Inl OverflowError \<Longrightarrow> \<exists>m'. regular_time_to_index ts i m = Inr m'"
proof (induction ts arbitrary: i m)
  case Nil
  then show ?case by simp
next
  case (Cons t ts)
  then obtain d where "decode_day t = Inr d"
    by (cases "decode_day t") (auto simp add: decode_day_def Let_def split: if_splits)
  with Cons show ?case by simp
qed

lemma lookup_times_sound:
  "lookup_times m reqs = Inr idxs \<Longrightarrow>
   length idxs = length reqs \<and>
   (\<forall>k < length reqs. m (isoformat (ts_date (reqs ! k))) = Some (idxs ! k))"
proof (induction reqs arbitrary: idxs)
  case Nil
  then show ?case by simp
next
  case (Cons r reqs)
  from Cons.prems obtain i js where i: "m (isoformat (ts_date r)) = Some i"
    and rest: "lookup_times m reqs = Inr js" and idxs: "idxs = i # js"
    by (auto simp add: strip_time_of_day Let_def split: option.splits sum.splits)
  from Cons.IH [OF rest] have len: "length js = length reqs"
    and all: "\<forall>k < length reqs. m (isoformat (ts_date (reqs ! k))) = Some (js ! k)" by simp_all
  have "\<forall>k < length (r # reqs). m (isoformat (ts_date ((r # reqs) ! k))) = Some (idxs ! k)"
  proof (intro allI impI)
    fix k assume "k < length (r # reqs)"
    then show "m (isoformat (ts_date ((r # reqs) ! k))) = Some (idxs ! k)"
      using i all idxs by (cases k) simp_all
  qed
  with len idxs show ?case by simp
qed

lemma lookup_times_error:
  "lookup_times m reqs = Inl err \<Longrightarrow> \<exists>r \<in> set reqs. err = KeyError (isoformat (ts_date r)) \<and> m (isoformat (ts_date r)) = None"
proof (induction reqs)
  case Nil
  then show ?case by simp
next
  case (Cons r reqs)
  show ?case
  proof (cases "m (isoformat (ts_date r))")
    case None
    with Cons.prems show ?thesis by (simp add: strip_time_of_day Let_def)
  next
    case (Some i)
    with Cons.prems have "lookup_times m reqs = Inl err"
      by (simp add: strip_time_of_day Let_def split: sum.splits)
    with Cons.IH show ?thesis by auto
  qed
qed

lemma lookup_times_missing:
  "r \<in> set reqs \<Longrightarrow> m (isoformat (ts_date r)) = None \<Longrightarrow> \<exists>err. lookup_times m reqs = Inl err"
proof (induction reqs)
  case Nil
  then show ?case by simp
next
  case (Cons a reqs)
  show ?case
  proof (cases "m (isoformat (ts_date a))")
    case None
    then show ?thesis by (simp add: strip_time_of_day Let_def)
  next
    case (Some i)
    with Cons.prems have "r \<in> set reqs" by auto
    from Cons.IH [OF this Cons.prems(2)] obtain err where "lookup_times m reqs = Inl err" by blast
    with Some show ?thesis by (simp add: strip_time_of_day Let_def)
  qed
qed

lemma get_time_index_sound:
  assumes "get_time_index ds reqs = Inr idxs"
  shows "length idxs = length reqs"
    and "k < length reqs \<Longrightarrow> idxs ! k < length (time ds)"
    and "k < length reqs \<Longrightarrow> decode_day (time ds ! (idxs ! k)) = Inr (ts_date (reqs ! k))"
proof -
  from assms obtain m where m: "regular_time_to_index (time ds) 0 Map.empty = Inr m"
    and look: "lookup_times m reqs = Inr idxs"
    by (auto simp add: get_time_index_def split: sum.splits)
  have inv: "index_of_axis (time ds) m"
    using regular_time_to_index_sound [of "time ds" "[]" Map.empty m] m index_of_axis_empty by simp
  from lookup_times_sound [OF look] show "length idxs = length reqs" by simp
  {
    assume k: "k < length reqs"
    with lookup_times_sound [OF look] have "m (isoformat (ts_date (reqs ! k))) = Some (idxs ! k)"
      by simp
    with inv obtain d where lt: "idxs ! k < length (time ds)"
      and d: "decode_day (time ds ! (idxs ! k)) = Inr d"
      and iso: "isoformat d = isoformat (ts_date (reqs ! k))"
      unfolding index_of_axis_def by blast
    from iso have "d = ts_date (reqs ! k)" by (rule isoformat_inj)
    with lt d have "idxs ! k < length (time ds) \<and>
        decode_day (time ds ! (idxs ! k)) = Inr (ts_date (reqs ! k))" by simp
  }
  then show "k < length reqs \<Longrightarrow> idxs ! k < length (time ds)"
    and "k < length reqs \<Longrightarrow> decode_day (time ds ! (idxs ! k)) = Inr (ts_date (reqs ! k))"
    by simp_all
qed

definition axis_covered :: "int list \<Rightarrow> (string \<rightharpoonup> nat) \<Rightarrow> bool" where
  "axis_covered axis m \<longleftrightarrow>
     (\<forall>j < length axis. \<forall>d. decode_day (axis ! j) = Inr d \<longrightarrow>
        (\<exists>i. m (isoformat d) = Some i \<and> j \<le> i))"

lemma axis_covered_empty: "axis_covered [] Map.empty"
  by (simp add: axis_covered_def)

lemma axis_covered_step:
  assumes "axis_covered pre m" "decode_day t = Inr d"
  shows "axis_covered (pre @ [t]) (m(isoformat d \<mapsto> length pre))"
  unfolding axis_covered_def
proof (intro allI impI)
  fix j d'
  assume j: "j < length (pre @ [t])" and dec: "decode_day ((pre @ [t]) ! j) = Inr d'"
  show "\<exists>i. (m(isoformat d \<mapsto> length pre)) (isoformat d') = Some i \<and> j \<le> i"
  proof (cases "isoformat d' = isoformat d")
    case True
    with j show ?thesis by simp
  next
    case False
    have "j \<noteq> length pre"
    proof
      assume "j = length pre"
      with dec assms(2) have "d' = d" by simp
      with False show False by simp
    qed
    with j have lt: "j < length pre" by simp
    with dec have "decode_day (pre ! j) = Inr d'" by (simp add: nth_append)
    with assms(1) lt obtain i where "m (isoformat d') = Some i" "j \<le> i"
      unfolding axis_covered_def by blast
    with False show ?thesis by simp
  qed
qed

lemma regular_time_to_index_covered:
  "regular_time_to_index ts (length pre) m = Inr m' \<Longrightarrow> axis_covered pre m \<Longrightarrow>
   axis_covered (pre @ ts) m'"
proof (induction ts arbitrary: pre m)
  case Nil
  then show ?case by simp
next
  case (Cons t ts)
  from Cons.prems(1) obtain d where d: "decode_day t = Inr d"
    and rest: "regular_time_to_index ts (Suc (length pre)) (m(isoformat d \<mapsto> length pre)) = Inr m'"
    by (auto split: sum.splits)
  from rest have "regular_time_to_index ts (length (pre @ [t])) (m(isoformat d \<mapsto> length pre)) = Inr m'"
    by simp
  from Cons.IH [OF this axis_covered_step [OF Cons.prems(2) d]]
  show ?case by simp
qed

lemma lookup_times_total:
  "\<forall>r \<in> set reqs. m (isoformat (ts_date r)) \<noteq> None \<Longrightarrow> \<exists>idxs. lookup_times m reqs = Inr idxs"
proof (induction reqs)
  case Nil
  then show ?case by simp
next
  case (Cons r reqs)
  from Cons.prems obtain i where i: "m (isoformat (ts_date r)) = Some i" by auto
  from Cons.prems have "\<forall>r \<in> set reqs. m (isoformat (ts_date r)) \<noteq> None" by simp
  from Cons.IH [OF this] obtain js where "lookup_times m reqs = Inr js" by blast
  with i show ?case by (simp add: strip_time_of_day Let_def)
qed

lemma get_time_index_complete:
  assumes ok: "\<forall>t \<in> set (time ds). decode_day t \<noteq> Inl OverflowError"
    and on: "\<forall>r \<in> set reqs. \<exists>i < length (time ds). decode_day (time ds ! i) = Inr (ts_date r)"
  shows "\<exists>found. get_time_index ds reqs = Inr found \<and> length found = length reqs \<and>
       (\<forall>k < length reqs. found ! k < length (time ds) \<and>
          decode_day (time ds ! (found ! k)) = Inr (ts_date (reqs ! k)) \<and>
          (\<forall>j < length (time ds).
             decode_day (time ds ! j) = Inr (ts_date (reqs ! k)) \<longrightarrow> j \<le> found ! k))"
proof -
  from regular_time_to_index_total [OF ok] obtain m
    where m: "regular_time_to_index (time ds) 0 Map.empty = Inr m" by blast
  have cov: "axis_covered (time ds) m"
    using regular_time_to_index_covered [of "time ds" "[]" Map.empty m] m axis_covered_empty
    by simp
  have "\<forall>r \<in> set reqs. m (isoformat (ts_date r)) \<noteq> None"
  proof
    fix r assume "r \<in> set reqs"
    with on obtain i where "i < length (time ds)" "decode_day (time ds ! i) = Inr (ts_date r)"
      by blast
    with cov obtain i' where "m (isoformat (ts_date r)) = Some i'"
      unfolding axis_covered_def by blast
    then show "m (isoformat (ts_date r)) \<noteq> None" by simp
  qed
  from lookup_times_total [OF this] obtain found where look: "lookup_times m reqs = Inr found"
    by blast
  with m have res: "get_time_index ds reqs = Inr found" by (simp add: get_time_index_def)
  have last: "j \<le> found ! k"
    if k: "k < length reqs" and j: "j < length (time ds)"
      and dec: "decode_day (time ds ! j) = Inr (ts_date (reqs ! k))" for k j
  proof -
    from cov j dec obtain i where "m (isoformat (ts_date (reqs ! k))) = Some i" "j \<le> i"
      unfolding axis_covered_def by blast
    moreover from lookup_times_sound [OF look] k
    have "m (isoformat (ts_date (reqs ! k))) = Some (found ! k)" by simp
    ultimately show ?thesis by simp
  qed
  from get_time_index_sound [OF res] last res show ?thesis by blast
qed

text \<open>
  C6. \<open>get_time_index\<close> maps every requested time stamp to the index of the entry of the
  time axis whose decoded date (day offset from 1800-01-01) is the calendar date of the time
  stamp, whatever its time of day. When it returns, it returns one such index per requested
  time stamp. When a requested date is the decoded date of no entry of the time axis,
  \<open>get_time_index\<close> returns no index list but an error; that error is the \<open>KeyError\<close> of a
  missing date whenever every entry of the time axis is a date Python can represent. When
  every entry of the time axis is such a date and every requested date is the decoded date
  of some entry, \<open>get_time_index\<close> does return the index list, and the index of a date is
  the last position of the time axis holding that date.
\<close>

theorem get_time_index_exact:
  shows "(get_time_index ds reqs = Inr idxs \<longrightarrow>
           length idxs = length reqs \<and>
           (\<forall>k < length reqs. idxs ! k < length (time ds) \<and>
              decode_day (time ds ! (idxs ! k)) = Inr (ts_date (reqs ! k))))
    \<and> (r \<in> set reqs \<and> (\<forall>i < length (time ds). decode_day (time ds ! i) \<noteq> Inr (ts_date r)) \<longrightarrow>
          (\<exists>err. get_time_index ds reqs = Inl err) \<and>
          ((\<forall>t \<in> set (time ds). decode_day t \<noteq> Inl OverflowError) \<longrightarrow>
             (\<exists>q \<in> set reqs. get_time_index ds reqs = Inl (KeyError (isoformat (ts_date q))))))
    \<and> ((\<forall>t \<in> set (time ds). decode_day t \<noteq> Inl OverflowError) \<and>
        (\<forall>r \<in> set reqs. \<exists>i < length (time ds). decode_day (time ds ! i) = Inr (ts_date r)) \<longrightarrow>
          (\<exists>found. get_time_index ds reqs = Inr found \<and> length found = length reqs \<and>
             (\<forall>k < length reqs. found ! k < length (time ds) \<and>
                decode_day (time ds ! (found ! k)) = Inr (ts_date (reqs ! k)) \<and>
                (\<forall>j < length (time ds).
                   decode_day (time ds ! j) = Inr (ts_date (reqs ! k)) \<longrightarrow> j \<le> found ! k))))"
proof (intro conjI impI)
  assume "(\<forall>t \<in> set (time ds). decode_day t \<noteq> Inl OverflowError) \<and>
        (\<forall>r \<in> set reqs. \<exists>i < length (time ds). decode_day (time ds ! i) = Inr (ts_date r))"
  then have ok: "\<forall>t \<in> set (time ds). decode_day t \<noteq> Inl OverflowError"
    and on: "\<forall>r \<in> set reqs. \<exists>i < length (time ds). decode_day (time ds ! i) = Inr (ts_date r)"
    by simp_all
  from get_time_index_complete [OF ok on]
  show "\<exists>found. get_time_index ds reqs = Inr found \<and> length found = length reqs \<and>
             (\<forall>k < length reqs. found ! k < length (time ds) \<and>
                decode_day (time ds ! (found ! k)) = Inr (ts_date (reqs ! k)) \<and>
                (\<forall>j < length (time ds).
                   decode_day (time ds ! j) = Inr (ts_date (reqs ! k)) \<longrightarrow> j \<le> found ! k))" .
next
  assume "get_time_index ds reqs = Inr idxs"
  from get_time_index_sound [OF this]
  show "length idxs = length reqs" and "\<forall>k < length reqs. idxs ! k < length (time ds) \<and>
              decode_day (time ds ! (idxs ! k)) = Inr (ts_date (reqs ! k))"
    by simp_all
next
  assume a: "r \<in> set reqs \<and> (\<forall>i < length (time ds). decode_day (time ds ! i) \<noteq> Inr (ts_date r))"
  show "\<exists>err. get_time_index ds reqs = Inl err"
  proof (cases "get_time_index ds reqs")
    case (Inl err)
    then show ?thesis by simp
  next
    case (Inr idxs)
    from a obtain k where k: "k < length reqs" and rk: "reqs ! k = r"
      by (auto simp add: in_set_conv_nth)
    from get_time_index_sound(2,3) [OF Inr k] rk a show ?thesis by auto
  qed
next
  assume a: "r \<in> set reqs \<and> (\<forall>i < length (time ds). decode_day (time ds ! i) \<noteq> Inr (ts_date r))"
    and ok: "\<forall>t \<in> set (time ds). decode_day t \<noteq> Inl OverflowError"
  from regular_time_to_index_total [OF ok] obtain m
    where m: "regular_time_to_index (time ds) 0 Map.empty = Inr m" by blast
  have inv: "index_of_axis (time ds) m"
    using regular_time_to_index_sound [of "time ds" "[]" Map.empty m] m index_of_axis_empty by simp
  have "m (isoformat (ts_date r)) = None"
  proof (cases "m (isoformat (ts_date r))")
    case None
    then show ?thesis .
  next
    case (Some j)
    with inv obtain d where lt: "j < length (time ds)"
      and d: "decode_day (time ds ! j) = Inr d" and iso: "isoformat d = isoformat (ts_date r)"
      unfolding index_of_axis_def by blast
    from iso have "d = ts_date r" by (rule isoformat_inj)
    with a lt d show ?thesis by auto
  qed
  with lookup_times_missing [of r reqs m] a obtain err where err: "lookup_times m reqs = Inl err"
    by blast
  from lookup_times_error [OF err] obtain q where "q \<in> set reqs"
    and "err = KeyError (isoformat (ts_date q))" by blast
  with err m show "\<exists>q \<in> set reqs. get_time_index ds reqs = Inl (KeyError (isoformat (ts_date q)))"
    by (auto simp add: get_time_index_def)
qed

definition repeated_day :: dataset where
  "repeated_day = (one_cell NaN)\<lparr>time := [77064, 77065, 77064]\<rparr>"

theorem get_time_index_exact_witness:
  "get_time_index (one_cell NaN) [\<lparr>ts_date = 734136, ts_secs = 43200\<rparr>] = Inr [0]
   \<and> decode_day (time (one_cell NaN) ! 0) = Inr 734136
   \<and> get_time_index (one_cell NaN) [\<lparr>ts_date = 734137, ts_secs = 0\<rparr>] = Inl (KeyError ''2010-12-31'')
   \<and> list_all (\<lambda>t. decode_day t \<noteq> Inl OverflowError) (time repeated_day)
   \<and> decode_day (time repeated_day ! 0) = Inr 734136
   \<and> decode_day (time repeated_day ! 2) = Inr 734136
   \<and> get_time_index repeated_day [\<lparr>ts_date = 734136, ts_secs = 43200\<rparr>] = Inr [2]"
proof -
  let ?noon = "\<lparr>ts_date = 734136, ts_secs = 43200\<rparr>"
  let ?next = "\<lparr>ts_date = 734137, ts_secs = 0\<rparr>"
  have h: "get_time_index (one_cell NaN) [?noon] = Inr [0]"
    by (simp add: get_time_index_def one_cell_def decode_day_def calendar_eval string_eval)
  have miss: "?next \<in> set [?next] \<and>
      (\<forall>i < length (time (one_cell NaN)). decode_day (time (one_cell NaN) ! i) \<noteq> Inr (ts_date ?next))"
    by (simp add: one_cell_def decode_day_def)
  have ok: "\<forall>t \<in> set (time (one_cell NaN)). decode_day t \<noteq> Inl OverflowError"
    by (simp add: one_cell_def decode_day_def)
  have iso: "isoformat 734137 = ''2010-12-31''"
    by (simp add: calendar_eval string_eval)
  have ok2: "\<forall>t \<in> set (time repeated_day). decode_day t \<noteq> Inl OverflowError"
    by (simp add: repeated_day_def decode_day_def)
  have d2: "decode_day (time repeated_day ! 2) = Inr 734136"
    by (simp add: repeated_day_def decode_day_def)
  have on: "\<forall>r \<in> set [?noon].
      \<exists>i < length (time repeated_day). decode_day (time repeated_day ! i) = Inr (ts_date r)"
  proof
    fix r assume "r \<in> set [?noon]"
    then have "ts_date r = 734136" by simp
    with d2 have "2 < length (time repeated_day) \<and>
        decode_day (time repeated_day ! 2) = Inr (ts_date r)"
      by (simp add: repeated_day_def)
    then show "\<exists>i < length (time repeated_day). decode_day (time repeated_day ! i) = Inr (ts_date r)"
      by blast
  qed
  from get_time_index_exact [of "one_cell NaN" "[?noon]" "[0]" ?noon] h
  have a: "decode_day (time (one_cell NaN) ! 0) = Inr 734136" by simp
  from get_time_index_exact [of "one_cell NaN" "[?next]" "[]" ?next] miss ok
  have b: "get_time_index (one_cell NaN) [?next] = Inl (KeyError ''2010-12-31'')"
    by (simp add: iso)
  from get_time_index_exact [of repeated_day "[?noon]" "[]" ?noon] ok2 on
  obtain found where res: "get_time_index repeated_day [?noon] = Inr found"
    and len: "length found = length [?noon]"
    and all: "\<forall>k < length [?noon]. found ! k < length (time repeated_day) \<and>
        decode_day (time repeated_day ! (found ! k)) = Inr (ts_date ([?noon] ! k)) \<and>
        (\<forall>j < length (time repeated_day).
           decode_day (time repeated_day ! j) = Inr (ts_date ([?noon] ! k)) \<longrightarrow> j \<le> found ! k)"
    by blast
  from len obtain i where found: "found = [i]" by (cases found) simp_all
  from all have "found ! 0 < length (time repeated_day)"
    and "\<forall>j < length (time repeated_day).
           decode_day (time repeated_day ! j) = Inr (ts_date ([?noon] ! 0)) \<longrightarrow> j \<le> found ! 0"
    by simp_all
  then have "i < 3" and "2 < length (time repeated_day) \<longrightarrow>
      decode_day (time repeated_day ! 2) = Inr 734136 \<longrightarrow> 2 \<le> i"
    by (simp_all add: found repeated_day_def)
  with d2 have "i = 2" by (simp add: repeated_day_def)
  with res found have c: "get_time_index repeated_day [?noon] = Inr [2]" by simp
  from ok2 have ok3: "list_all (\<lambda>t. decode_day t \<noteq> Inl OverflowError) (time repeated_day)"
    by (simp only: list_all_iff)
  have d0: "decode_day (time repeated_day ! 0) = Inr 734136"
    by (simp add: repeated_day_def decode_day_def)
  from h a b ok3 d0 d2 c show ?thesis by (intro conjI)
qed

section \<open>Nearest grid cell\<close>




lemma euclid_zero: "euclid p q = 0 \<longleftrightarrow> p = q"
  by (cases p; cases q) (simp add: euclid_def sum_power2_eq_zero_iff)

lemma euclid_nonneg: "0 \<le> euclid p q"
  by (simp add: euclid_def)

lemma as_points_length: "as_points e rows = Inr pts \<Longrightarrow> length pts = length rows"
proof (induction rows arbitrary: pts)
  case Nil
  then show ?case by simp
next
  case (Cons r rows)
  then show ?case by (auto split: option.splits sum.splits)
qed



definition two_by_two :: downloader where
  "two_by_two = \<lparr>sst_data_parent_dir = noaa, temp_dir = ''/tmp/t'',
     locations = [[PyFloat 20, PyFloat (- 160)], [PyInt 12, PyInt 40]],
     start_date = 734136, end_date = 734139\<rparr>"

lemma two_by_two_points: "as_points e (locations two_by_two) = Inr [(20, - 160), (12, 40)]"
  by (simp add: two_by_two_def)

lemma two_by_two_index_matrix:
  "build_2d_meshgrid [0..<length [10, 20::real]] [0..<length [30, - 160::real]] =
     [(0, 0), (1, 0), (0, 1), (1, 1)]"
  by (simp add: build_2d_meshgrid_def)

lemma two_by_two_query:
  "map (leaf_query (build_2d_meshgrid [10, 20] [30, - 160])) [(20, - 160), (12, 40)] = [3, 0]"
  by (simp add: build_2d_meshgrid_def leaf_query_def float_eval)

lemma two_by_two_lat_lon_index:
  assumes "kdtree_query e = leaf_query"
  shows "get_lat_lon_index e two_by_two [10, 20] [30, - 160] = Inr ([1, 0], [1, 0])"
  by (simp only: get_lat_lon_index_def Let_def two_by_two_points two_by_two_index_matrix
      two_by_two_query assms sum.case) simp




section \<open>Year partition\<close>

lemma append_at_new: "k \<notin> fst ` set m \<Longrightarrow> append_at m k v = m @ [(k, [v])]"
  by (induction m) auto

lemma append_at_keyed:
  "distinct ks \<Longrightarrow> k \<in> set ks \<Longrightarrow>
   append_at (map (\<lambda>x. (x, g x)) ks) k v = map (\<lambda>x. (x, if x = k then g x @ [v] else g x)) ks"
proof (induction ks)
  case Nil
  then show ?case by simp
next
  case (Cons a ks)
  show ?case
  proof (cases "a = k")
    case True
    with Cons.prems have "k \<notin> set ks" by simp
    then have "map (\<lambda>x. (x, if x = k then g x @ [v] else g x)) ks = map (\<lambda>x. (x, g x)) ks"
      by (intro map_cong) auto
    with True show ?thesis by simp
  next
    case False
    with Cons show ?thesis by simp
  qed
qed

definition first_seen :: "'a list \<Rightarrow> 'a list" where
  "first_seen ks = rev (remdups (rev ks))"

lemma first_seen_snoc:
  "first_seen (ks @ [k]) = (if k \<in> set ks then first_seen ks else first_seen ks @ [k])"
  by (simp add: first_seen_def)

lemma first_seen_set: "set (first_seen ks) = set ks"
  by (simp add: first_seen_def)

lemma first_seen_distinct: "distinct (first_seen ks)"
  by (simp add: first_seen_def)

lemma group_by_key:
  "foldl (\<lambda>m x. append_at m (f x) x) [] xs =
     map (\<lambda>k. (k, filter (\<lambda>x. f x = k) xs)) (first_seen (map f xs))"
proof (induction xs rule: rev_induct)
  case Nil
  then show ?case by (simp add: first_seen_def)
next
  case (snoc x xs)
  let ?ks = "first_seen (map f xs)"
  have step: "foldl (\<lambda>m x. append_at m (f x) x) [] (xs @ [x]) =
      append_at (map (\<lambda>k. (k, filter (\<lambda>x. f x = k) xs)) ?ks) (f x) x"
    by (simp add: snoc.IH)
  show ?case
  proof (cases "f x \<in> set (map f xs)")
    case True
    then have "f x \<in> set ?ks" by (simp only: first_seen_set)
    from append_at_keyed [OF first_seen_distinct this, where g = "\<lambda>k. filter (\<lambda>x. f x = k) xs" and v = x]
    have "append_at (map (\<lambda>k. (k, filter (\<lambda>x. f x = k) xs)) ?ks) (f x) x =
        map (\<lambda>k. (k, if k = f x then filter (\<lambda>x. f x = k) xs @ [x] else filter (\<lambda>x. f x = k) xs)) ?ks"
      by simp
    also have "\<dots> = map (\<lambda>k. (k, filter (\<lambda>y. f y = k) (xs @ [x]))) ?ks"
      by (intro map_cong) auto
    finally show ?thesis using True by (simp only: step map_append first_seen_snoc list.map if_True)
  next
    case False
    then have "f x \<notin> fst ` set (map (\<lambda>k. (k, filter (\<lambda>x. f x = k) xs)) ?ks)"
      by (simp add: image_image first_seen_set)
    from append_at_new [OF this]
    have e1: "append_at (map (\<lambda>k. (k, filter (\<lambda>x. f x = k) xs)) ?ks) (f x) x =
        map (\<lambda>k. (k, filter (\<lambda>x. f x = k) xs)) ?ks @ [(f x, [x])]" .
    have e2: "map (\<lambda>k. (k, filter (\<lambda>x. f x = k) xs)) ?ks =
        map (\<lambda>k. (k, filter (\<lambda>y. f y = k) (xs @ [x]))) ?ks"
    proof (rule map_cong [OF refl])
      fix k assume "k \<in> set ?ks"
      then have "k \<in> set (map f xs)" by (simp only: first_seen_set)
      with False have "f x \<noteq> k" by blast
      then show "(k, filter (\<lambda>x. f x = k) xs) = (k, filter (\<lambda>y. f y = k) (xs @ [x]))" by simp
    qed
    have e3: "[(f x, [x])] = [(f x, filter (\<lambda>y. f y = f x) (xs @ [x]))]"
    proof -
      have "\<forall>y \<in> set xs. f y \<noteq> f x"
      proof (intro ballI notI)
        fix y assume y: "y \<in> set xs" and eq: "f y = f x"
        from y have "f y \<in> set (map f xs)" by simp
        with eq False show False by simp
      qed
      then have "filter (\<lambda>y. f y = f x) xs = []" by (simp add: filter_empty_conv)
      then show ?thesis by simp
    qed
    have "foldl (\<lambda>m x. append_at m (f x) x) [] (xs @ [x]) =
        map (\<lambda>k. (k, filter (\<lambda>y. f y = k) (xs @ [x]))) ?ks @
        [(f x, filter (\<lambda>y. f y = f x) (xs @ [x]))]"
      by (simp only: step e1 e3) (simp only: e2)
    then show ?thesis using False
      by (simp only: map_append first_seen_snoc list.map if_False)
  qed
qed

lemma one_bundle_per_key:
  "distinct (map u ps) \<Longrightarrow>
   foldl (\<lambda>m p. append_at m (u p) (g p)) [] ps = map (\<lambda>p. (u p, [g p])) ps"
proof (induction ps rule: rev_induct)
  case Nil
  then show ?case by simp
next
  case (snoc p ps)
  then have d: "distinct (map u ps)" and new: "u p \<notin> set (map u ps)" by simp_all
  from new have "u p \<notin> fst ` set (map (\<lambda>p. (u p, [g p])) ps)" by (simp add: image_image)
  from append_at_new [OF this] snoc.IH [OF d] show ?case by simp
qed

lemma file_name_inj: "file_name y = file_name y' \<Longrightarrow> y = y'"
  by (simp add: file_name_def str_nat_inj)

lemma url_inj: "parent @ file_name y = parent @ file_name y' \<Longrightarrow> y = y'"
  by (simp add: file_name_inj)

lemma path_join_inj: "path_join dir (file_name y) = path_join dir (file_name y') \<Longrightarrow> y = y'"
  by (simp add: path_join_def file_name_inj split: if_splits)

text \<open>
  The requested time stamps of a downloader, the years met among them in order of first
  appearance, and the work unit of a year: the remote URL with its one bundle of local path
  and dates of that year.
\<close>

definition requested :: "downloader \<Rightarrow> timestamp list" where
  "requested self = date_range (start_date self) (end_date self)"

definition years :: "downloader \<Rightarrow> nat list" where
  "years self = first_seen (map year (requested self))"

definition work_unit :: "downloader \<Rightarrow> nat \<Rightarrow> string \<times> (string \<times> timestamp list) list" where
  "work_unit self y =
     (sst_data_parent_dir self @ ''sst.day.mean.'' @ str_nat y @ ''.nc'',
      [(path_join (temp_dir self) (''sst.day.mean.'' @ str_nat y @ ''.nc''),
        filter (\<lambda>ts. year ts = y) (requested self))])"

lemma year_to_timestamp_eq:
  "year_to_timestamp self =
     map (\<lambda>y. (y, filter (\<lambda>ts. year ts = y) (requested self))) (years self)"
  unfolding year_to_timestamp_def years_def requested_def by (rule group_by_key)

lemma mapping_eq: "remote_to_local_dir_mapping self = map (work_unit self) (years self)"
proof -
  let ?u = "\<lambda>p :: nat \<times> timestamp list. sst_data_parent_dir self @ file_name (fst p)"
  let ?g = "\<lambda>p :: nat \<times> timestamp list. (path_join (temp_dir self) (file_name (fst p)), snd p)"
  have "inj_on (\<lambda>y. sst_data_parent_dir self @ file_name y) (set (years self))"
    by (rule inj_onI) (rule url_inj)
  then have "distinct (map (\<lambda>y. sst_data_parent_dir self @ file_name y) (years self))"
    by (simp add: distinct_map years_def first_seen_distinct)
  then have d: "distinct (map ?u (year_to_timestamp self))"
    by (simp add: year_to_timestamp_eq comp_def)
  have "remote_to_local_dir_mapping self =
      foldl (\<lambda>m p. append_at m (?u p) (?g p)) [] (year_to_timestamp self)"
    by (simp add: remote_to_local_dir_mapping_def case_prod_unfold)
  also have "\<dots> = map (\<lambda>p. (?u p, [?g p])) (year_to_timestamp self)"
    by (rule one_bundle_per_key [OF d])
  also have "\<dots> = map (work_unit self) (years self)"
    by (simp add: year_to_timestamp_eq comp_def work_unit_def file_name_def)
  finally show ?thesis .
qed


lemma requested_dates: "map ts_date (requested self) = [start_date self..<Suc (end_date self)]"
  by (simp add: requested_def date_range_def comp_def)

lemma requested_midnight: "ts \<in> set (requested self) \<Longrightarrow> ts_secs ts = 0"
  by (auto simp add: requested_def date_range_def)

lemma requested_chronological: "sorted_wrt (\<lambda>a b. ts_date a < ts_date b) (requested self)"
proof -
  have "sorted_wrt (<) (map ts_date (requested self))" by (simp only: requested_dates sorted_wrt_upt)
  then show ?thesis by (simp only: sorted_wrt_map)
qed

lemma requested_years_sorted: "sorted (map year (requested self))"
proof -
  have "sorted_wrt (\<lambda>a b. year a \<le> year b) (requested self)"
  proof (rule sorted_wrt_mono_rel [OF _ requested_chronological])
    fix a b :: timestamp assume "ts_date a < ts_date b"
    then show "year a \<le> year b" by (simp add: year_def year_of_mono_all)
  qed
  then show ?thesis by (simp only: sorted_map)
qed

lemma first_seen_sorted: "sorted ks \<Longrightarrow> sorted (first_seen ks)"
proof (induction ks rule: rev_induct)
  case Nil
  then show ?case by (simp add: first_seen_def)
next
  case (snoc k ks)
  from snoc.prems have s: "sorted ks" and le: "\<forall>x \<in> set ks. x \<le> k"
    by (simp_all add: sorted_append)
  from snoc.IH [OF s] le show ?case
    by (simp add: first_seen_snoc sorted_append first_seen_set)
qed

lemma two_year_mapping:
  "remote_to_local_dir_mapping
     \<lparr>sst_data_parent_dir = noaa, temp_dir = ''/tmp/t'', locations = locs,
       start_date = 734136, end_date = 734139\<rparr> =
   [(noaa @ ''sst.day.mean.2010.nc'',
     [(''/tmp/t/sst.day.mean.2010.nc'',
       [\<lparr>ts_date = 734136, ts_secs = 0\<rparr>, \<lparr>ts_date = 734137, ts_secs = 0\<rparr>])]),
    (noaa @ ''sst.day.mean.2011.nc'',
     [(''/tmp/t/sst.day.mean.2011.nc'',
       [\<lparr>ts_date = 734138, ts_secs = 0\<rparr>, \<lparr>ts_date = 734139, ts_secs = 0\<rparr>])])]"
  by (simp add: remote_to_local_dir_mapping_def year_to_timestamp_def date_range_def year_def
      year_of_def year_from.simps days_before_year_def file_name_def path_join_def str_nat.simps
      digit_char_def upt_rec [of 734136] upt_rec [of 734137] upt_rec [of 734138] upt_rec [of 734139])

text \<open>
  C5. The dates enumerated are the midnight time stamps of every day from the start date to
  the end date. The mapping has one entry per calendar year met, in order of first
  appearance (which is increasing); its key is the base location followed by
  \<open>sst.day.mean.<year>.nc\<close>, the keys are distinct, and its value is one bundle holding the local
  path and the requested dates of that year, in order. For 2010-12-30 to 2011-01-02 there
  are two entries: 2010 with 2010-12-30 and 2010-12-31, and 2011 with 2011-01-01 and
  2011-01-02.
\<close>

theorem year_partition:
  "map ts_date (date_range (start_date self) (end_date self)) = [start_date self..<Suc (end_date self)]
   \<and> map ts_secs (date_range (start_date self) (end_date self))
        = replicate (Suc (end_date self) - start_date self) 0
   \<and> (\<exists>ys. distinct ys \<and> sorted ys
         \<and> set ys = year ` set (date_range (start_date self) (end_date self))
         \<and> remote_to_local_dir_mapping self =
             map (\<lambda>y. (sst_data_parent_dir self @ ''sst.day.mean.'' @ str_nat y @ ''.nc'',
                        [(path_join (temp_dir self) (''sst.day.mean.'' @ str_nat y @ ''.nc''),
                          filter (\<lambda>ts. year ts = y) (date_range (start_date self) (end_date self)))]))
               ys)
   \<and> distinct (map fst (remote_to_local_dir_mapping self))
   \<and> remote_to_local_dir_mapping
        \<lparr>sst_data_parent_dir = noaa, temp_dir = ''/tmp/t'', locations = locs,
          start_date = ymd2ord 2010 12 30, end_date = ymd2ord 2011 1 2\<rparr> =
       [(noaa @ ''sst.day.mean.2010.nc'',
         [(''/tmp/t/sst.day.mean.2010.nc'',
           [\<lparr>ts_date = ymd2ord 2010 12 30, ts_secs = 0\<rparr>, \<lparr>ts_date = ymd2ord 2010 12 31, ts_secs = 0\<rparr>])]),
        (noaa @ ''sst.day.mean.2011.nc'',
         [(''/tmp/t/sst.day.mean.2011.nc'',
           [\<lparr>ts_date = ymd2ord 2011 1 1, ts_secs = 0\<rparr>, \<lparr>ts_date = ymd2ord 2011 1 2, ts_secs = 0\<rparr>])])]
   \<and> map isoformat [ymd2ord 2010 12 30, ymd2ord 2010 12 31, ymd2ord 2011 1 1, ymd2ord 2011 1 2]
        = [''2010-12-30'', ''2010-12-31'', ''2011-01-01'', ''2011-01-02'']"
proof (intro conjI)
  show "map ts_date (date_range (start_date self) (end_date self)) = [start_date self..<Suc (end_date self)]"
    by (simp add: date_range_def comp_def)
  have "map ts_secs (date_range (start_date self) (end_date self))
        = map (\<lambda>d. 0) [start_date self..<Suc (end_date self)]"
    by (simp add: date_range_def comp_def del: upt_Suc)
  then show "map ts_secs (date_range (start_date self) (end_date self))
        = replicate (Suc (end_date self) - start_date self) 0"
    by (simp only: map_replicate_const length_upt)
  have "distinct (years self)" by (simp add: years_def first_seen_distinct)
  moreover have "sorted (years self)"
    unfolding years_def by (rule first_seen_sorted [OF requested_years_sorted])
  moreover have "set (years self) = year ` set (date_range (start_date self) (end_date self))"
    by (simp add: years_def first_seen_set requested_def)
  moreover have "remote_to_local_dir_mapping self =
      map (\<lambda>y. (sst_data_parent_dir self @ ''sst.day.mean.'' @ str_nat y @ ''.nc'',
                 [(path_join (temp_dir self) (''sst.day.mean.'' @ str_nat y @ ''.nc''),
                   filter (\<lambda>ts. year ts = y) (date_range (start_date self) (end_date self)))]))
        (years self)"
    by (simp add: mapping_eq work_unit_def [abs_def] requested_def)
  ultimately show "\<exists>ys. distinct ys \<and> sorted ys
         \<and> set ys = year ` set (date_range (start_date self) (end_date self))
         \<and> remote_to_local_dir_mapping self =
             map (\<lambda>y. (sst_data_parent_dir self @ ''sst.day.mean.'' @ str_nat y @ ''.nc'',
                        [(path_join (temp_dir self) (''sst.day.mean.'' @ str_nat y @ ''.nc''),
                          filter (\<lambda>ts. year ts = y) (date_range (start_date self) (end_date self)))]))
               ys"
    by blast
  have "inj_on (\<lambda>y. sst_data_parent_dir self @ file_name y) (set (years self))"
    by (rule inj_onI) (rule url_inj)
  then show "distinct (map fst (remote_to_local_dir_mapping self))"
    by (simp add: mapping_eq work_unit_def comp_def distinct_map years_def first_seen_distinct
        file_name_def)
  have o: "ymd2ord 2010 12 30 = 734136" "ymd2ord 2010 12 31 = 734137"
    "ymd2ord 2011 1 1 = 734138" "ymd2ord 2011 1 2 = 734139"
    by (simp_all add: ymd2ord_def days_before_year_def days_before_month.simps days_in_month_def
        is_leap_def)
  show "remote_to_local_dir_mapping
        \<lparr>sst_data_parent_dir = noaa, temp_dir = ''/tmp/t'', locations = locs,
          start_date = ymd2ord 2010 12 30, end_date = ymd2ord 2011 1 2\<rparr> =
       [(noaa @ ''sst.day.mean.2010.nc'',
         [(''/tmp/t/sst.day.mean.2010.nc'',
           [\<lparr>ts_date = ymd2ord 2010 12 30, ts_secs = 0\<rparr>, \<lparr>ts_date = ymd2ord 2010 12 31, ts_secs = 0\<rparr>])]),
        (noaa @ ''sst.day.mean.2011.nc'',
         [(''/tmp/t/sst.day.mean.2011.nc'',
           [\<lparr>ts_date = ymd2ord 2011 1 1, ts_secs = 0\<rparr>, \<lparr>ts_date = ymd2ord 2011 1 2, ts_secs = 0\<rparr>])])]"
    unfolding o by (rule two_year_mapping)
  show "map isoformat [ymd2ord 2010 12 30, ymd2ord 2010 12 31, ymd2ord 2011 1 1, ymd2ord 2011 1 2]
        = [''2010-12-30'', ''2010-12-31'', ''2011-01-01'', ''2011-01-02'']"
    unfolding o by (simp add: calendar_eval string_eval)
qed


theorem year_partition_witness:
  "map ts_date (date_range (start_date two_by_two) (end_date two_by_two))
     = [734136, 734137, 734138, 734139]
   \<and> distinct (map fst (remote_to_local_dir_mapping two_by_two))"
proof -
  have "[start_date two_by_two..<Suc (end_date two_by_two)] = [734136, 734137, 734138, 734139]"
    by (simp add: two_by_two_def upt_rec [of 734136] upt_rec [of 734137] upt_rec [of 734138]
        upt_rec [of 734139])
  with year_partition [of two_by_two "[]"] show ?thesis by simp
qed

section \<open>Rows of the returned table\<close>

lemma grouped_concat:
  fixes f :: "'a \<Rightarrow> nat"
  shows "sorted (map f xs) \<Longrightarrow>
    concat (map (\<lambda>k. filter (\<lambda>x. f x = k) xs) (first_seen (map f xs))) = xs
    \<and> (xs \<noteq> [] \<longrightarrow> first_seen (map f xs) \<noteq> [] \<and> last (first_seen (map f xs)) = f (last xs))"
proof (induction xs rule: rev_induct)
  case Nil
  then show ?case by (simp add: first_seen_def)
next
  case (snoc x xs)
  define ks where "ks = first_seen (map f xs)"
  define G0 where "G0 = (\<lambda>k. filter (\<lambda>y. f y = k) xs)"
  define G where "G = (\<lambda>k. filter (\<lambda>y. f y = k) (xs @ [x]))"
  from snoc.prems have s: "sorted (map f xs)" and le: "\<forall>y \<in> set xs. f y \<le> f x"
    by (simp_all add: sorted_append)
  from snoc.IH [OF s] have cat: "concat (map G0 ks) = xs"
    and lst: "xs \<noteq> [] \<Longrightarrow> ks \<noteq> [] \<and> last ks = f (last xs)"
    by (simp_all add: ks_def G0_def)
  have G_other: "G k = G0 k" if "k \<noteq> f x" for k
    using that by (auto simp add: G_def G0_def)
  have G_this: "G (f x) = G0 (f x) @ [x]"
    by (simp add: G_def G0_def)
  have goal: "concat (map G (first_seen (map f (xs @ [x])))) = xs @ [x]
      \<and> first_seen (map f (xs @ [x])) \<noteq> [] \<and> last (first_seen (map f (xs @ [x]))) = f x"
  proof (cases "f x \<in> set (map f xs)")
    case False
    have same: "map G ks = map G0 ks"
    proof (rule map_cong [OF refl])
      fix k assume "k \<in> set ks"
      then have "k \<in> set (map f xs)" by (simp only: ks_def first_seen_set)
      with False have "k \<noteq> f x" by blast
      then show "G k = G0 k" by (rule G_other)
    qed
    have "\<forall>y \<in> set xs. f y \<noteq> f x"
    proof (intro ballI notI)
      fix y assume y: "y \<in> set xs" and eq: "f y = f x"
      from y have "f y \<in> set (map f xs)" by simp
      with eq False show False by simp
    qed
    then have none: "G0 (f x) = []" by (simp add: G0_def filter_empty_conv)
    have eq: "first_seen (map f (xs @ [x])) = ks @ [f x]"
      using False by (simp add: first_seen_snoc ks_def)
    show ?thesis unfolding eq by (simp add: same cat G_this none)
  next
    case True
    then have ne: "xs \<noteq> []" by auto
    from lst [OF ne] have kne: "ks \<noteq> []" and last: "last ks = f (last xs)" by simp_all
    from True obtain y where y: "y \<in> set xs" "f y = f x" by auto
    have "f y \<le> f (last xs)"
    proof (cases "y = last xs")
      case True
      then show ?thesis by simp
    next
      case False
      from ne have xs: "butlast xs @ [last xs] = xs" by simp
      with y(1) False have "y \<in> set (butlast xs)"
        by (metis Un_iff empty_iff empty_set insert_iff list.simps(15) set_append)
      moreover have "sorted (map f (butlast xs @ [last xs]))" using s xs by simp
      then have "\<forall>z \<in> set (butlast xs). f z \<le> f (last xs)" by (simp add: sorted_append)
      ultimately show ?thesis by blast
    qed
    moreover have "f (last xs) \<le> f x" using le ne by simp
    ultimately have fx: "last ks = f x" using y(2) last by simp
    define ks' where "ks' = butlast ks"
    have "butlast ks @ [last ks] = ks" using kne by (rule append_butlast_last_id)
    then have split: "ks = ks' @ [f x]" by (simp only: ks'_def fx)
    have "distinct ks" unfolding ks_def by (rule first_seen_distinct)
    then have notin: "f x \<notin> set ks'" unfolding split by simp
    have same: "map G ks' = map G0 ks'"
    proof (rule map_cong [OF refl])
      fix k assume "k \<in> set ks'"
      with notin have "k \<noteq> f x" by blast
      then show "G k = G0 k" by (rule G_other)
    qed
    have eq: "first_seen (map f (xs @ [x])) = ks' @ [f x]"
      using True split by (simp add: first_seen_snoc ks_def)
    from cat have cat': "concat (map G0 ks') @ G0 (f x) = xs"
      unfolding split by simp
    have "concat (map G (ks' @ [f x])) = (concat (map G0 ks') @ G0 (f x)) @ [x]"
      by (simp add: same G_this)
    then show ?thesis unfolding eq by (simp only: cat') simp
  qed
  then show ?case by (simp add: G_def)
qed

lemma requested_by_year:
  "concat (map (\<lambda>y. filter (\<lambda>ts. year ts = y) (requested self)) (years self)) = requested self"
  unfolding years_def using grouped_concat [OF requested_years_sorted] by blast


text \<open>The rows of one date: one row per pair of grid positions, in the order of the pairs.\<close>

definition date_block :: "dataset \<Rightarrow> nat list \<Rightarrow> nat list \<Rightarrow> timestamp \<Rightarrow> nat \<Rightarrow> row list" where
  "date_block ds lat_index lon_index d t =
     map (\<lambda>(i, j). \<lparr>DATE = d, LAT = lat ds ! i, LON = lon ds ! j, SST = sst ds t i j\<rparr>)
       (zip lat_index lon_index)"

lemma one_date_rows:
  "length li = length lo \<Longrightarrow>
   map mk (zip (replicate (length li) d)
            (zip (map latf li) (zip (map lonf lo) (map sstf (zip (replicate (length li) t) (zip li lo))))))
   = map (\<lambda>(i, j). mk (d, latf i, lonf j, sstf (t, i, j))) (zip li lo)"
  by (induction li lo rule: list_induct2) simp_all

lemma all_date_rows:
  assumes "length ds = length ts" "length li = length lo"
  shows "map mk (zip (np_repeat ds (length li))
            (zip (map latf (np_tile li (length ts)))
              (zip (map lonf (np_tile lo (length ts)))
                (map sstf (zip (np_repeat ts (length li))
                            (zip (np_tile li (length ts)) (np_tile lo (length ts))))))))
    = concat (map (\<lambda>(d, t). map (\<lambda>(i, j). mk (d, latf i, lonf j, sstf (t, i, j))) (zip li lo))
               (zip ds ts))"
  using assms(1)
proof (induction ds ts rule: list_induct2)
  case Nil
  then show ?case by (simp add: np_repeat_def np_tile_def)
next
  case (Cons d ds t ts)
  have r: "np_repeat (d # ds) (length li) = replicate (length li) d @ np_repeat ds (length li)"
    "np_repeat (t # ts) (length li) = replicate (length li) t @ np_repeat ts (length li)"
    by (simp_all add: np_repeat_def)
  have t: "np_tile li (length (t # ts)) = li @ np_tile li (length ts)"
    "np_tile lo (length (t # ts)) = lo @ np_tile lo (length ts)"
    by (simp_all add: np_tile_def)
  show ?case
    unfolding r t using Cons.IH assms(2) one_date_rows [OF assms(2), of mk d latf lonf sstf t]
    by simp
qed

lemma get_lat_lon_index_lengths:
  assumes "get_lat_lon_index e self la lo = Inr (lat_index, lon_index)"
  shows "length lat_index = length (locations self)" "length lon_index = length (locations self)"
proof -
  from assms obtain pts where pts: "as_points e (locations self) = Inr pts"
    by (auto simp add: get_lat_lon_index_def Let_def split: sum.splits)
  with assms have "length lat_index = length pts \<and> length lon_index = length pts"
    by (auto simp add: get_lat_lon_index_def Let_def split: if_splits)
  with as_points_length [OF pts]
  show "length lat_index = length (locations self)" "length lon_index = length (locations self)"
    by simp_all
qed

lemma extract_year_rows:
  assumes "extract_year e self ds dates = Inr df"
  shows "\<exists>time_index lat_index lon_index.
           get_time_index ds dates = Inr time_index
           \<and> get_lat_lon_index e self (lat ds) (lon ds) = Inr (lat_index, lon_index)
           \<and> df = concat (map (\<lambda>(d, t). date_block ds lat_index lon_index d t) (zip dates time_index))"
proof -
  from assms obtain time_index lat_index lon_index
    where ti: "get_time_index ds dates = Inr time_index"
      and li: "get_lat_lon_index e self (lat ds) (lon ds) = Inr (lat_index, lon_index)"
    by (auto simp add: extract_year_def split: sum.splits)
  have len_t: "length dates = length time_index"
    using get_time_index_sound(1) [OF ti] by simp
  have len_l: "length lat_index = length lon_index"
    using get_lat_lon_index_lengths [OF li] by simp
  have "df = map (\<lambda>(d, la, lo, s). \<lparr>DATE = d, LAT = la, LON = lo, SST = s\<rparr>)
      (zip (np_repeat dates (length lat_index))
        (zip (map (\<lambda>i. lat ds ! i) (np_tile lat_index (length time_index)))
          (zip (map (\<lambda>j. lon ds ! j) (np_tile lon_index (length time_index)))
            (map (\<lambda>(t, i, j). sst ds t i j)
              (zip (np_repeat time_index (length lat_index))
                (zip (np_tile lat_index (length time_index)) (np_tile lon_index (length time_index))))))))"
    using assms by (simp add: extract_year_def ti li Let_def)
  also have "\<dots> = concat (map (\<lambda>(d, t). date_block ds lat_index lon_index d t) (zip dates time_index))"
    unfolding all_date_rows [OF len_t len_l] by (simp add: date_block_def)
  finally show ?thesis using ti li by blast
qed

text \<open>The grid of a year as \<open>download\<close> reads it: the file retrieved for the year, with its
  longitudes normalised.\<close>

definition year_grid :: "env \<Rightarrow> downloader \<Rightarrow> nat \<Rightarrow> dataset option" where
  "year_grid e self y =
     map_option (\<lambda>raw. raw\<lparr>lon := map normalize_lon (lon raw)\<rparr>)
       (remote e (sst_data_parent_dir self @ file_name y))"

lemma download_years_tables:
  assumes "distinct ys"
    and "\<forall>y \<in> set ys. files (path_join (temp_dir self) (file_name y)) = None"
    and "download_years e self files (map (work_unit self) ys) = Inr dfs"
  shows "list_all2 (\<lambda>y df. \<exists>ds. year_grid e self y = Some ds
           \<and> extract_year e self ds (filter (\<lambda>ts. year ts = y) (requested self)) = Inr df) ys dfs"
  using assms
proof (induction ys arbitrary: files dfs)
  case Nil
  then show ?case by simp
next
  case (Cons y ys)
  define url where "url = sst_data_parent_dir self @ file_name y"
  define loc where "loc = path_join (temp_dir self) (file_name y)"
  let ?url = url
  let ?local = loc
  let ?dates = "filter (\<lambda>ts. year ts = y) (requested self)"
  have unit: "work_unit self y = (?url, [(?local, ?dates)])"
    by (simp add: work_unit_def file_name_def url_def loc_def)
  from Cons.prems(2) have absent: "files ?local = None" by (simp add: loc_def)
  from Cons.prems(3) obtain raw where raw: "remote e ?url = Some raw"
    by (auto simp add: unit download_to_local_def absent split: option.splits)
  define files' where "files' = files(?local \<mapsto> raw)"
  define ds where "ds = raw\<lparr>lon := map normalize_lon (lon raw)\<rparr>"
  have dl: "download_to_local e ?url ?local files = Inr files'"
    by (simp add: download_to_local_def absent raw files'_def)
  have rd: "read_dataset files' ?local = Inr ds"
    by (simp add: read_dataset_def files'_def ds_def)
  from Cons.prems(3) obtain df rest where df: "extract_year e self ds ?dates = Inr df"
    and rest: "download_years e self files' (map (work_unit self) ys) = Inr rest"
    and dfs: "dfs = df # rest"
    by (auto simp add: unit dl rd split: sum.splits)
  have "\<forall>y' \<in> set ys. files' (path_join (temp_dir self) (file_name y')) = None"
  proof
    fix y' assume y': "y' \<in> set ys"
    with Cons.prems(1) have "y' \<noteq> y" by auto
    then have "path_join (temp_dir self) (file_name y') \<noteq> ?local"
      unfolding loc_def using path_join_inj by blast
    with Cons.prems(2) y' show "files' (path_join (temp_dir self) (file_name y')) = None"
      by (simp add: files'_def)
  qed
  with Cons.IH [of files' rest] Cons.prems(1) rest
  have "list_all2 (\<lambda>y df. \<exists>ds. year_grid e self y = Some ds
           \<and> extract_year e self ds (filter (\<lambda>ts. year ts = y) (requested self)) = Inr df) ys rest"
    by simp
  moreover have "year_grid e self y = Some ds"
    using raw by (simp add: year_grid_def ds_def url_def)
  ultimately show ?case using df dfs by auto
qed

text \<open>The block of a requested date: the rows of that date from the grid of its year, at a
  position of the time axis that decodes to the date.\<close>

definition block_of :: "env \<Rightarrow> downloader \<Rightarrow> timestamp \<Rightarrow> row list \<Rightarrow> bool" where
  "block_of e self d blk \<longleftrightarrow>
     (\<exists>ds lat_index lon_index t.
        year_grid e self (year d) = Some ds
        \<and> get_lat_lon_index e self (lat ds) (lon ds) = Inr (lat_index, lon_index)
        \<and> t < length (time ds) \<and> decode_day (time ds ! t) = Inr (ts_date d)
        \<and> blk = date_block ds lat_index lon_index d t)"

lemma concat_of_concats: "concat (map concat xss) = concat (concat xss)"
  by (induction xss) simp_all

lemma list_all2_concat:
  "list_all2 (list_all2 R) xss yss \<Longrightarrow> list_all2 R (concat xss) (concat yss)"
  by (induction xss yss rule: list_all2_induct) (simp_all add: list_all2_appendI)

lemma list_all2_ex_concat:
  "list_all2 (\<lambda>y df. \<exists>bs. df = concat bs \<and> P y bs) ys dfs \<Longrightarrow>
   \<exists>bss. dfs = map concat bss \<and> list_all2 P ys bss"
proof (induction ys dfs rule: list_all2_induct)
  case Nil
  then show ?case by simp
next
  case (Cons y ys df dfs)
  from Cons(1) obtain bs where bs: "df = concat bs" "P y bs" by blast
  from Cons.IH obtain bss where bss: "dfs = map concat bss" "list_all2 P ys bss" by blast
  from bs bss have "df # dfs = map concat (bs # bss) \<and> list_all2 P (y # ys) (bs # bss)" by simp
  then show ?case by (rule exI [of _ "bs # bss"])
qed

lemma year_blocks:
  assumes grid: "year_grid e self y = Some ds"
    and ex: "extract_year e self ds dates = Inr df"
    and yr: "\<forall>d \<in> set dates. year d = y"
  shows "\<exists>blocks. df = concat blocks \<and> list_all2 (block_of e self) dates blocks"
proof -
  from extract_year_rows [OF ex] obtain time_index lat_index lon_index
    where ti: "get_time_index ds dates = Inr time_index"
      and li: "get_lat_lon_index e self (lat ds) (lon ds) = Inr (lat_index, lon_index)"
      and df: "df = concat (map (\<lambda>(d, t). date_block ds lat_index lon_index d t) (zip dates time_index))"
    by blast
  define blocks where
    "blocks = map (\<lambda>(d, t). date_block ds lat_index lon_index d t) (zip dates time_index)"
  have len: "length time_index = length dates" by (rule get_time_index_sound(1) [OF ti])
  have "list_all2 (block_of e self) dates blocks"
  proof (rule list_all2_all_nthI)
    show "length dates = length blocks" by (simp add: blocks_def len)
  next
    fix k assume k: "k < length dates"
    then have "dates ! k \<in> set dates" by simp
    with yr have y: "year (dates ! k) = y" by simp
    have b: "blocks ! k = date_block ds lat_index lon_index (dates ! k) (time_index ! k)"
      using k len by (simp add: blocks_def)
    from get_time_index_sound(2,3) [OF ti k] grid li y b
    show "block_of e self (dates ! k) (blocks ! k)"
      unfolding block_of_def by blast
  qed
  with df show ?thesis unfolding blocks_def by blast
qed

lemma download_blocks:
  assumes "download e self = Inr (output, warned)"
  shows "\<exists>blocks. list_all2 (block_of e self) (requested self) blocks
           \<and> output = map mark_missing (concat blocks)"
proof -
  from download_result [OF assms] obtain result
    where r: "download_years e self Map.empty (remote_to_local_dir_mapping self) = Inr result"
      and a: "assemble result = Inr (output, warned)" by blast
  have out: "output = map mark_missing (concat result)" by (rule assemble_rows(1) [OF a])
  have d: "distinct (years self)" by (simp add: years_def first_seen_distinct)
  from r have "download_years e self Map.empty (map (work_unit self) (years self)) = Inr result"
    by (simp only: mapping_eq)
  from download_years_tables [OF d _ this]
  have tables: "list_all2 (\<lambda>y df. \<exists>ds. year_grid e self y = Some ds
           \<and> extract_year e self ds (filter (\<lambda>ts. year ts = y) (requested self)) = Inr df)
         (years self) result"
    by simp
  have "list_all2 (\<lambda>y df. \<exists>blocks. df = concat blocks
            \<and> list_all2 (block_of e self) (filter (\<lambda>ts. year ts = y) (requested self)) blocks)
         (years self) result"
  proof (rule list_all2_mono [OF tables])
    fix y df
    assume "\<exists>ds. year_grid e self y = Some ds
           \<and> extract_year e self ds (filter (\<lambda>ts. year ts = y) (requested self)) = Inr df"
    then obtain ds where "year_grid e self y = Some ds"
      and "extract_year e self ds (filter (\<lambda>ts. year ts = y) (requested self)) = Inr df" by blast
    from year_blocks [OF this]
    show "\<exists>blocks. df = concat blocks
            \<and> list_all2 (block_of e self) (filter (\<lambda>ts. year ts = y) (requested self)) blocks"
      by simp
  qed
  from list_all2_ex_concat [OF this] obtain bss where res: "result = map concat bss"
    and bss: "list_all2 (\<lambda>y bs. list_all2 (block_of e self)
        (filter (\<lambda>ts. year ts = y) (requested self)) bs) (years self) bss"
    by blast
  have "list_all2 (list_all2 (block_of e self))
      (map (\<lambda>y. filter (\<lambda>ts. year ts = y) (requested self)) (years self)) bss"
    using bss by (simp add: list_all2_map1)
  from list_all2_concat [OF this]
  have "list_all2 (block_of e self) (requested self) (concat bss)"
    by (simp only: requested_by_year)
  moreover have "output = map mark_missing (concat (concat bss))"
    by (simp only: out res concat_of_concats)
  ultimately show ?thesis by blast
qed

lemma block_of_rows:
  assumes "block_of e self d blk"
  shows "\<exists>ds lat_index lon_index.
           year_grid e self (year d) = Some ds
           \<and> get_lat_lon_index e self (lat ds) (lon ds) = Inr (lat_index, lon_index)
           \<and> map DATE (map mark_missing blk) = replicate (length (locations self)) d
           \<and> map LAT (map mark_missing blk) = map (\<lambda>i. lat ds ! i) lat_index
           \<and> map LON (map mark_missing blk) = map (\<lambda>j. lon ds ! j) lon_index"
proof -
  from assms obtain ds lat_index lon_index t
    where grid: "year_grid e self (year d) = Some ds"
      and li: "get_lat_lon_index e self (lat ds) (lon ds) = Inr (lat_index, lon_index)"
      and blk: "blk = date_block ds lat_index lon_index d t"
    unfolding block_of_def by blast
  note len = get_lat_lon_index_lengths [OF li]
  have "map DATE (map mark_missing blk) = map (\<lambda>p. d) (zip lat_index lon_index)"
    by (simp add: blk date_block_def comp_def mark_missing_fields case_prod_unfold)
  then have "map DATE (map mark_missing blk) = replicate (length (locations self)) d"
    by (simp add: map_replicate_const len)
  moreover have "map LAT (map mark_missing blk) = map (\<lambda>i. lat ds ! i) (map fst (zip lat_index lon_index))"
    by (simp add: blk date_block_def comp_def mark_missing_fields case_prod_unfold)
  then have "map LAT (map mark_missing blk) = map (\<lambda>i. lat ds ! i) lat_index"
    by (simp add: len)
  moreover have "map LON (map mark_missing blk) = map (\<lambda>j. lon ds ! j) (map snd (zip lat_index lon_index))"
    by (simp add: blk date_block_def comp_def mark_missing_fields case_prod_unfold)
  then have "map LON (map mark_missing blk) = map (\<lambda>j. lon ds ! j) lon_index"
    by (simp add: len)
  ultimately show ?thesis using grid li by blast
qed

lemma block_of_length: "block_of e self d blk \<Longrightarrow> length blk = length (locations self)"
  using block_of_rows [of e self d blk] by (metis length_map length_replicate)

lemma blocks_length:
  "list_all2 (block_of e self) ds blocks \<Longrightarrow>
   length (concat blocks) = length ds * length (locations self)"
  by (induction ds blocks rule: list_all2_induct) (simp_all add: block_of_length)

lemma unit_rows:
  "(\<Sum>(url, bundle)\<leftarrow>remote_to_local_dir_mapping self.
      \<Sum>(local_dir, dates)\<leftarrow>bundle. length dates * n)
   = length (requested self) * n"
proof -
  have "(\<Sum>(url, bundle)\<leftarrow>remote_to_local_dir_mapping self.
      \<Sum>(local_dir, dates)\<leftarrow>bundle. length dates * n)
      = (\<Sum>y\<leftarrow>years self. length (filter (\<lambda>ts. year ts = y) (requested self)) * n)"
    by (simp add: mapping_eq work_unit_def comp_def)
  also have "\<dots> = (\<Sum>y\<leftarrow>years self. length (filter (\<lambda>ts. year ts = y) (requested self))) * n"
    by (simp only: sum_list_mult_const)
  also have "(\<Sum>y\<leftarrow>years self. length (filter (\<lambda>ts. year ts = y) (requested self)))
      = length (concat (map (\<lambda>y. filter (\<lambda>ts. year ts = y) (requested self)) (years self)))"
    by (simp add: length_concat comp_def)
  finally show ?thesis by (simp only: requested_by_year)
qed

text \<open>
  C3. The table returned by \<open>download\<close> has one row for every requested date and query
  location: its length is the number of days from the start date to the end date times the
  number of locations, which is also the sum, over the work units of the year partition, of
  the number of dates of the unit times the number of locations.
\<close>

theorem download_row_count:
  assumes "download e self = Inr (output, warned)"
  shows "length output
           = length (date_range (start_date self) (end_date self)) * length (locations self)
    \<and> length (date_range (start_date self) (end_date self)) = Suc (end_date self) - start_date self
    \<and> length output
         = (\<Sum>(url, bundle)\<leftarrow>remote_to_local_dir_mapping self.
              \<Sum>(local_dir, dates)\<leftarrow>bundle. length dates * length (locations self))"
proof -
  from download_blocks [OF assms] obtain blocks
    where b: "list_all2 (block_of e self) (requested self) blocks"
      and out: "output = map mark_missing (concat blocks)" by blast
  from blocks_length [OF b] out
  have n: "length output = length (requested self) * length (locations self)" by simp
  have "length (date_range (start_date self) (end_date self)) = Suc (end_date self) - start_date self"
    by (simp only: date_range_def length_map length_upt)
  with n unit_rows [where self = self and n = "length (locations self)"] show ?thesis
    by (simp only: requested_def)
qed



section \<open>A request over two years\<close>

definition two_years :: env where
  "two_years = \<lparr>mkdtemp = Some ''/tmp/t'',
     remote = [noaa @ ''sst.day.mean.2010.nc'' \<mapsto>
                 \<lparr>lat = [10, 20], lon = [30, 200], time = [77064, 77065],
                   sst = (\<lambda>t i j. Num (of_nat (100 * t + 10 * i + j)))\<rparr>,
               noaa @ ''sst.day.mean.2011.nc'' \<mapsto>
                 \<lparr>lat = [10, 20], lon = [30, 200], time = [77066, 77067],
                   sst = (\<lambda>t i j. if i = 0 then Num (- (996921 * 10 ^ 31))
                                    else Num (of_nat (100 * t + 10 * i + j)))\<rparr>],
     irregular_frame = (\<lambda>rows. Inl ValueError), to_float64 = (\<lambda>cell. Inl ValueError),
     kdtree_query = leaf_query\<rparr>"

definition two_year_table :: "row list" where
  "two_year_table =
     [\<lparr>DATE = \<lparr>ts_date = 734136, ts_secs = 0\<rparr>, LAT = 20, LON = - 160, SST = Num 11\<rparr>,
      \<lparr>DATE = \<lparr>ts_date = 734136, ts_secs = 0\<rparr>, LAT = 10, LON = 30, SST = Num 0\<rparr>,
      \<lparr>DATE = \<lparr>ts_date = 734137, ts_secs = 0\<rparr>, LAT = 20, LON = - 160, SST = Num 111\<rparr>,
      \<lparr>DATE = \<lparr>ts_date = 734137, ts_secs = 0\<rparr>, LAT = 10, LON = 30, SST = Num 100\<rparr>,
      \<lparr>DATE = \<lparr>ts_date = 734138, ts_secs = 0\<rparr>, LAT = 20, LON = - 160, SST = Num 11\<rparr>,
      \<lparr>DATE = \<lparr>ts_date = 734138, ts_secs = 0\<rparr>, LAT = 10, LON = 30, SST = NaN\<rparr>,
      \<lparr>DATE = \<lparr>ts_date = 734139, ts_secs = 0\<rparr>, LAT = 20, LON = - 160, SST = Num 111\<rparr>,
      \<lparr>DATE = \<lparr>ts_date = 734139, ts_secs = 0\<rparr>, LAT = 10, LON = 30, SST = NaN\<rparr>]"

lemma two_by_two_mapping:
  "remote_to_local_dir_mapping two_by_two =
   [(noaa @ ''sst.day.mean.2010.nc'',
     [(''/tmp/t/sst.day.mean.2010.nc'',
       [\<lparr>ts_date = 734136, ts_secs = 0\<rparr>, \<lparr>ts_date = 734137, ts_secs = 0\<rparr>])]),
    (noaa @ ''sst.day.mean.2011.nc'',
     [(''/tmp/t/sst.day.mean.2011.nc'',
       [\<lparr>ts_date = 734138, ts_secs = 0\<rparr>, \<lparr>ts_date = 734139, ts_secs = 0\<rparr>])])]"
  unfolding two_by_two_def by (rule two_year_mapping)

lemma time_index_2010:
  "time ds = [77064, 77065] \<Longrightarrow>
   get_time_index ds [\<lparr>ts_date = 734136, ts_secs = 0\<rparr>, \<lparr>ts_date = 734137, ts_secs = 0\<rparr>] = Inr [0, 1]"
  by (simp add: get_time_index_def decode_day_def calendar_eval string_eval)

lemma time_index_2011:
  "time ds = [77066, 77067] \<Longrightarrow>
   get_time_index ds [\<lparr>ts_date = 734138, ts_secs = 0\<rparr>, \<lparr>ts_date = 734139, ts_secs = 0\<rparr>] = Inr [0, 1]"
  by (simp add: get_time_index_def decode_day_def calendar_eval string_eval)

lemma two_by_two_extract:
  assumes "kdtree_query e = leaf_query" "lat ds = [10, 20]" "lon ds = [30, - 160]"
    and "get_time_index ds [d1, d2] = Inr [0, 1]"
  shows "extract_year e two_by_two ds [d1, d2] =
    Inr [\<lparr>DATE = d1, LAT = 20, LON = - 160, SST = sst ds 0 1 1\<rparr>,
         \<lparr>DATE = d1, LAT = 10, LON = 30, SST = sst ds 0 0 0\<rparr>,
         \<lparr>DATE = d2, LAT = 20, LON = - 160, SST = sst ds 1 1 1\<rparr>,
         \<lparr>DATE = d2, LAT = 10, LON = 30, SST = sst ds 1 0 0\<rparr>]"
  by (simp add: extract_year_def assms two_by_two_lat_lon_index np_repeat_def np_tile_def Let_def)

lemma two_year_download: "download two_years two_by_two = Inr (two_year_table, [])"
  by (simp add: download_def two_by_two_mapping two_years_def download_to_local_def
      read_dataset_def normalize_lon_def two_by_two_extract time_index_2010 time_index_2011
      assemble_def mark_missing_def missing_threshold_def two_year_table_def noaa_def Let_def)


theorem download_row_count_witness:
  "download two_years two_by_two = Inr (two_year_table, [])
   \<and> length two_year_table
       = length (date_range (start_date two_by_two) (end_date two_by_two))
           * length (locations two_by_two)
   \<and> length two_year_table = 8"
proof -
  from download_row_count [OF two_year_download]
  have "length two_year_table
       = length (date_range (start_date two_by_two) (end_date two_by_two))
           * length (locations two_by_two)" by (rule conjunct1)
  moreover have "length two_year_table = 8" by (simp add: two_year_table_def)
  ultimately show ?thesis using two_year_download by (intro conjI)
qed


end
